theory Spec2Isabelle
  imports Main "HOL-Library.Sublist"
begin

section \<open>Text\<close>

text \<open>
  A Python \<open>str\<close> is a list of characters. \<open>sub in s\<close> is \<^term>\<open>sublist sub s\<close>,
  \<open>s.startswith(t)\<close> is \<^term>\<open>prefix t s\<close> and \<open>s.endswith(t)\<close> is \<^term>\<open>suffix t s\<close>
  (all three are executable). HOL's \<open>char\<close> has 256 values, so the line boundaries of
  \<open>str.splitlines\<close> that the model knows are the ones below 256: LF, VT, FF, CR, FS, GS,
  RS, NEL, and the pair CR LF, which is one boundary.
\<close>

definition linebreaks :: "char list" where
  "linebreaks = [CHR 0x0A, CHR 0x0B, CHR 0x0C, CHR 0x0D, CHR 0x1C, CHR 0x1D, CHR 0x1E, CHR 0x85]"

text \<open>\<open>splitlines_from keepends cur s\<close>: the lines of \<open>s\<close>, \<open>cur\<close> being the part of the
  current line already read; a line keeps its line end when \<open>keepends\<close> holds.\<close>

fun splitlines_from :: "bool \<Rightarrow> string \<Rightarrow> string \<Rightarrow> string list" where
  "splitlines_from keepends cur [] = (if cur = [] then [] else [cur])"
| "splitlines_from keepends cur (c # cs) =
     (if c = CHR 0x0D then
        (case cs of
           [] \<Rightarrow> [if keepends then cur @ [c] else cur]
         | d # ds \<Rightarrow>
             if d = CHR 0x0A
             then (if keepends then cur @ [c, d] else cur) # splitlines_from keepends [] ds
             else (if keepends then cur @ [c] else cur) # splitlines_from keepends [] cs)
      else if c \<in> set linebreaks
      then (if keepends then cur @ [c] else cur) # splitlines_from keepends [] cs
      else splitlines_from keepends (cur @ [c]) cs)"

text \<open>\<open>s.splitlines()\<close> and \<open>s.splitlines(True)\<close>; \<open>''.join(lines)\<close> is \<^term>\<open>concat lines\<close>.\<close>

definition splitlines :: "string \<Rightarrow> string list" where
  "splitlines s = splitlines_from False [] s"

definition splitlines_keep :: "string \<Rightarrow> string list" where
  "splitlines_keep s = splitlines_from True [] s"

text \<open>\<open>sep.join(xs)\<close>\<close>

fun str_join :: "string \<Rightarrow> string list \<Rightarrow> string" where
  "str_join sep [] = []"
| "str_join sep [x] = x"
| "str_join sep (x # y # ys) = x @ sep @ str_join sep (y # ys)"

text \<open>\<open>str(n)\<close> for an integer.\<close>

fun str_nat :: "nat \<Rightarrow> string" where
  "str_nat n =
     (if n < 10 then [''0123456789'' ! n]
      else str_nat (n div 10) @ [''0123456789'' ! (n mod 10)])"

definition str_int :: "int \<Rightarrow> string" where
  "str_int i = (if i < 0 then ''-'' @ str_nat (nat (- i)) else str_nat (nat i))"

text \<open>\<open>lines.pop(idx)\<close> for an index in range (the scripts check the range first).\<close>

definition pop :: "nat \<Rightarrow> 'a list \<Rightarrow> 'a list" where
  "pop i xs = take i xs @ drop (Suc i) xs"

text \<open>\<open>lines.insert(i, x)\<close> for \<open>0 \<le> i\<close>: an index past the end appends.\<close>

definition insert_at :: "nat \<Rightarrow> 'a \<Rightarrow> 'a list \<Rightarrow> 'a list" where
  "insert_at i x xs = take i xs @ x # drop i xs"

text \<open>\<open>s.replace(old, new)\<close>: the occurrences of \<open>old\<close> are found from the left and do not
  overlap; an empty \<open>old\<close> matches before every character and at the end.\<close>

function replace_str :: "string \<Rightarrow> string \<Rightarrow> string \<Rightarrow> string" where
  "replace_str old new [] = (if old = [] then new else [])"
| "replace_str old new (c # cs) =
     (if old = [] then new @ c # replace_str old new cs
      else if prefix old (c # cs) then new @ replace_str old new (drop (length old) (c # cs))
      else c # replace_str old new cs)"
  by pat_completeness auto
termination
  by (relation "measure (\<lambda>(old, new, s). length s)") auto

section \<open>The source tree\<close>

text \<open>
  The scripts reach the files through \<open>pathlib\<close>, which is not part of the repository: its
  pure path operations are a parameter of the model, a record of functions over a type
  \<open>'p\<close> of paths. \<open>relative_to\<close> gives \<open>str(p.relative_to(q))\<close>, or \<open>None\<close> where
  pathlib raises \<open>ValueError\<close> (\<open>p\<close> is not below \<open>q\<close>).

  The tree maps a path to what is there: a file with its text (as \<open>read_text\<close> returns it),
  a directory, or nothing. Two different path values are two different files.
\<close>

record 'p pathlib =
  joinpath :: "'p \<Rightarrow> string \<Rightarrow> 'p"
  parent :: "'p \<Rightarrow> 'p"
  with_suffix :: "'p \<Rightarrow> string \<Rightarrow> 'p"
  relative_to :: "'p \<Rightarrow> 'p \<Rightarrow> string option"

datatype node = File string | Dir

type_synonym 'p tree = "'p \<Rightarrow> node option"

datatype error = FileNotFoundError | IsADirectoryError | ValueError

text \<open>A run of a loop either completes or stops at an uncaught exception; either way it
  leaves a state behind.\<close>

datatype 's run = Completed 's | Raised error 's

definition exists :: "'p tree \<Rightarrow> 'p \<Rightarrow> bool" where
  "exists t p = (t p \<noteq> None)"

definition read_text :: "'p tree \<Rightarrow> 'p \<Rightarrow> error + string" where
  "read_text t p =
     (case t p of
        None \<Rightarrow> Inl FileNotFoundError
      | Some Dir \<Rightarrow> Inl IsADirectoryError
      | Some (File s) \<Rightarrow> Inr s)"

text \<open>\<open>write_text\<close> is only ever called on a path whose text was just read.\<close>

definition write_text :: "'p tree \<Rightarrow> 'p \<Rightarrow> string \<Rightarrow> 'p tree" where
  "write_text t p s = t(p \<mapsto> File s)"

section \<open>Removing stale suppression directives\<close>

definition directive :: string where
  "directive = ''@ts-expect-error''"

text \<open>The test both scripts make before a removal:
  \<open>0 <= idx < len(lines) and '@ts-expect-error' in lines[idx]\<close> with \<open>idx = lineno - 1\<close>.\<close>

definition directive_at :: "string list \<Rightarrow> int \<Rightarrow> bool" where
  "directive_at lines lineno =
     (let idx = lineno - 1
      in 0 \<le> idx \<and> idx < int (length lines) \<and> sublist directive (lines ! nat idx))"

type_synonym hit = "string \<times> int"

subsection \<open>remove\_ts\_expect.py\<close>

text \<open>\<open>byfile[f].append(l)\<close> on a \<open>defaultdict(list)\<close>: the keys stay in the order of
  their first insertion.\<close>

fun byfile_append :: "(string \<times> int list) list \<Rightarrow> string \<Rightarrow> int \<Rightarrow> (string \<times> int list) list" where
  "byfile_append [] f l = [(f, [l])]"
| "byfile_append ((g, ls) # rest) f l =
     (if g = f then (g, ls @ [l]) # rest else (g, ls) # byfile_append rest f l)"

definition byfile_of :: "hit list \<Rightarrow> (string \<times> int list) list" where
  "byfile_of hits = foldl (\<lambda>byfile (f, l). byfile_append byfile f l) [] hits"

text \<open>\<open>sorted(set(lines), reverse=True)\<close>\<close>

definition lines_sorted :: "int list \<Rightarrow> int list" where
  "lines_sorted lines = rev (sort (remdups lines))"

text \<open>The inner loop \<open>for ln in lines_sorted\<close> over the state \<open>(txt, changed, removed)\<close>.\<close>

fun expect_loop :: "string \<Rightarrow> int list \<Rightarrow> string list \<times> bool \<times> hit list \<Rightarrow> string list \<times> bool \<times> hit list" where
  "expect_loop f [] s = s"
| "expect_loop f (ln # lns) (txt, changed, removed) =
     (if directive_at txt ln
      then expect_loop f lns (pop (nat (ln - 1)) txt, True, removed @ [(f, ln)])
      else expect_loop f lns (txt, changed, removed))"

text \<open>The outer loop \<open>for f, lines in byfile.items()\<close> over the tree and \<open>removed\<close>.\<close>

fun expect_files :: "'p pathlib \<Rightarrow> 'p \<Rightarrow> (string \<times> int list) list \<Rightarrow> 'p tree \<times> hit list \<Rightarrow> ('p tree \<times> hit list) run" where
  "expect_files os root [] s = Completed s"
| "expect_files os root ((f, lines) # rest) (t, removed) =
     (let p = joinpath os root f in
      if \<not> exists t p then expect_files os root rest (t, removed)
      else
        (case read_text t p of
           Inl e \<Rightarrow> Raised e (t, removed)
         | Inr s \<Rightarrow>
             (case expect_loop f (lines_sorted lines) (splitlines_keep s, False, removed) of
                (txt, changed, removed') \<Rightarrow>
                  if changed then expect_files os root rest (write_text t p (concat txt), removed')
                  else expect_files os root rest (t, removed'))))"

text \<open>The script from the parsed hits on: the cap of 200, the grouping, the loop.\<close>

definition remove_ts_expect :: "'p pathlib \<Rightarrow> 'p \<Rightarrow> hit list \<Rightarrow> 'p tree \<Rightarrow> ('p tree \<times> hit list) run" where
  "remove_ts_expect os root hits t = expect_files os root (byfile_of (take 200 hits)) (t, [])"

subsection \<open>anchor\_fix.py, step 4A\<close>

text \<open>The loop \<open>for file, lineno in hits_2578\<close>: every hit reads the file again, removes
  at most one line and writes the file back.\<close>

fun loop_2578 :: "'p pathlib \<Rightarrow> 'p \<Rightarrow> hit list \<Rightarrow> 'p tree \<times> hit list \<Rightarrow> ('p tree \<times> hit list) run" where
  "loop_2578 os root [] s = Completed s"
| "loop_2578 os root ((file, lineno) # hits) (t, removed) =
     (let p = joinpath os root file in
      if \<not> exists t p then loop_2578 os root hits (t, removed)
      else
        (case read_text t p of
           Inl e \<Rightarrow> Raised e (t, removed)
         | Inr s \<Rightarrow>
             (let lines = splitlines_keep s in
              if directive_at lines lineno
              then loop_2578 os root hits
                     (write_text t p (concat (pop (nat (lineno - 1)) lines)), removed @ [(file, lineno)])
              else loop_2578 os root hits (t, removed))))"

text \<open>\<open>hits_2578 = hits_2578[:20]\<close>, then the loop.\<close>

definition step_4a :: "'p pathlib \<Rightarrow> 'p \<Rightarrow> hit list \<Rightarrow> 'p tree \<Rightarrow> ('p tree \<times> hit list) run" where
  "step_4a os root hits_2578 t = loop_2578 os root (take 20 hits_2578) (t, [])"

text \<open>Whether the line a hit designates in the tree holds the directive now, and the size
  of the text at a path.\<close>

definition anchored_directive :: "'p pathlib \<Rightarrow> 'p \<Rightarrow> 'p tree \<Rightarrow> hit \<Rightarrow> bool" where
  "anchored_directive os root t h =
     (case t (joinpath os root (fst h)) of
        Some (File s) \<Rightarrow> directive_at (splitlines_keep s) (snd h)
      | _ \<Rightarrow> False)"

definition text_size :: "'p tree \<Rightarrow> 'p \<Rightarrow> nat" where
  "text_size t p = (case t p of Some (File s) \<Rightarrow> length s | _ \<Rightarrow> 0)"

section \<open>Rewriting unresolved relative imports: anchor\_fix.py, step 4B\<close>

text \<open>\<open>if s.endswith(ext): s = s[:-len(ext)]\<close>, for the non-empty \<open>ext\<close> of the script.\<close>

definition strip_suffix :: "string \<Rightarrow> string \<Rightarrow> string" where
  "strip_suffix ext s = (if suffix ext s then take (length s - length ext) s else s)"

text \<open>From \<open>str(rel)\<close> to \<open>new_mod\<close>: backslashes become slashes, the loop over
  \<open>['.ts', '.tsx']\<close> strips each extension that ends the string when its turn comes, then a
  final \<open>/index\<close> goes, then \<open>./\<close> is put in front unless the string starts with a dot.\<close>

definition rewritten_specifier :: "string \<Rightarrow> string" where
  "rewritten_specifier rel =
     (let rel_no_ext = replace_str [CHR 0x5C] ''/'' rel;
          rel_no_ext = foldl (\<lambda>r ext. strip_suffix ext r) rel_no_ext [''.ts'', ''.tsx''];
          rel_no_ext = strip_suffix ''/index'' rel_no_ext
      in if \<not> prefix ''.'' rel_no_ext then ''./'' @ rel_no_ext else rel_no_ext)"

text \<open>The specifier as the specification words it, for comparison with the one above: the
  relative path (with \<open>/\<close> as separator), one final extension \<open>.ts\<close> or \<open>.tsx\<close>
  stripped, a final \<open>/index\<close> removed, and \<open>./\<close> in front unless a dot starts it.\<close>

definition slashed :: "string \<Rightarrow> string" where
  "slashed rel = replace_str [CHR 0x5C] ''/'' rel"

definition claimed_specifier :: "string \<Rightarrow> string" where
  "claimed_specifier rel =
     (let s = slashed rel;
          s = (if suffix ''.ts'' s then strip_suffix ''.ts'' s
               else if suffix ''.tsx'' s then strip_suffix ''.tsx'' s else s);
          s = strip_suffix ''/index'' s
      in if prefix ''.'' s then s else ''./'' @ s)"

text \<open>The candidates, in the order of the list \<open>options\<close>.\<close>

definition options :: "'p pathlib \<Rightarrow> 'p \<Rightarrow> 'p list" where
  "options os cand =
     [with_suffix os cand ''.ts'', with_suffix os cand ''.tsx'',
      joinpath os cand ''index.ts'', joinpath os cand ''index.tsx'']"

text \<open>The probe loop: \<open>for o in options: if o.exists(): exists = o; break\<close>.\<close>

fun probe :: "'p tree \<Rightarrow> 'p list \<Rightarrow> 'p option" where
  "probe t [] = None"
| "probe t (opt # opts) = (if exists t opt then Some opt else probe t opts)"

text \<open>The resolver of one hit: the importing file \<open>file\<close>, the specifier \<open>modl\<close>.\<close>

definition resolve :: "'p pathlib \<Rightarrow> 'p tree \<Rightarrow> 'p \<Rightarrow> string \<Rightarrow> string \<Rightarrow> 'p option" where
  "resolve os t root file modl =
     (let src_path = joinpath os root file;
          base = parent os src_path;
          cand = joinpath os base modl
      in probe t (options os cand))"


definition squoted :: "string \<Rightarrow> string" where
  "squoted s = [CHR 0x27] @ s @ [CHR 0x27]"

definition dquoted :: "string \<Rightarrow> string" where
  "dquoted s = [CHR 0x22] @ s @ [CHR 0x22]"

text \<open>\<open>ptext.replace(f"'{mod}'", f"'{new_mod}'").replace(f'"{mod}"', f'"{new_mod}"')\<close>\<close>

definition rewrite_import :: "string \<Rightarrow> string \<Rightarrow> string \<Rightarrow> string" where
  "rewrite_import modl new_mod ptext =
     replace_str (dquoted modl) (dquoted new_mod)
       (replace_str (squoted modl) (squoted new_mod) ptext)"

type_synonym fixed_entry = "string \<times> string \<times> string"
type_synonym skip_entry = "string \<times> string \<times> string"

text \<open>The loop \<open>for file, mod in hits_2307\<close> over the tree, \<open>fixed\<close>, \<open>skipped\<close> and
  \<open>count\<close>. The \<open>break\<close> at the sixteenth relative specifier ends the loop;
  \<open>relative_to\<close> and \<open>read_text\<close> can raise.\<close>

fun loop_2307 :: "'p pathlib \<Rightarrow> 'p \<Rightarrow> (string \<times> string) list
    \<Rightarrow> 'p tree \<times> fixed_entry list \<times> skip_entry list \<times> int
    \<Rightarrow> ('p tree \<times> fixed_entry list \<times> skip_entry list \<times> int) run" where
  "loop_2307 os root [] s = Completed s"
| "loop_2307 os root ((file, modl) # hits) (t, fixed, skipped, count) =
     (if \<not> prefix ''.'' modl
      then loop_2307 os root hits (t, fixed, skipped @ [(file, modl, ''non-relative'')], count)
      else if count + 1 > 15 then Completed (t, fixed, skipped, count + 1)
      else
        (case resolve os t root file modl of
           None \<Rightarrow>
             loop_2307 os root hits
               (t, fixed, skipped @ [(file, modl, ''target-missing'')], count + 1)
         | Some ex \<Rightarrow>
             (case relative_to os ex (parent os (joinpath os root file)) of
                None \<Rightarrow> Raised ValueError (t, fixed, skipped, count + 1)
              | Some rel \<Rightarrow>
                  (case read_text t (joinpath os root file) of
                     Inl e \<Rightarrow> Raised e (t, fixed, skipped, count + 1)
                   | Inr ptext \<Rightarrow>
                       (let new_mod = rewritten_specifier rel;
                            ptext2 = rewrite_import modl new_mod ptext
                        in if ptext2 \<noteq> ptext
                           then loop_2307 os root hits
                                  (write_text t (joinpath os root file) ptext2,
                                   fixed @ [(file, modl, new_mod)], skipped, count + 1)
                           else loop_2307 os root hits (t, fixed, skipped, count + 1))))))"

definition step_4b :: "'p pathlib \<Rightarrow> 'p \<Rightarrow> (string \<times> string) list \<Rightarrow> 'p tree
    \<Rightarrow> ('p tree \<times> fixed_entry list \<times> skip_entry list \<times> int) run" where
  "step_4b os root hits_2307 t = loop_2307 os root hits_2307 (t, [], [], 0)"

text \<open>The lines of \<open>04a_ts2578.txt\<close> and the text of \<open>04b_ts2307.txt\<close>.\<close>

definition report_4a :: "hit list \<Rightarrow> string" where
  "report_4a removed =
     str_join ''\<newline>'' (map (\<lambda>(f, l). ''REMOVED '' @ f @ '' line '' @ str_int l) removed)"

definition report_4b :: "fixed_entry list \<Rightarrow> skip_entry list \<Rightarrow> string" where
  "report_4b fixed skipped =
     concat (map (\<lambda>(f, m, n). ''FIXED import: '' @ f @ '' '' @ m @ '' -> '' @ n @ ''\<newline>'') fixed)
     @ concat (map (\<lambda>(f, m, r). ''SKIP: '' @ f @ '' '' @ m @ '' ('' @ r @ '')\<newline>'')
                 (take 50 skipped))"

section \<open>anchor\_fix.py as a whole\<close>

text \<open>
  The regular expressions are Python's \<open>re\<close>; the model takes what they match as given:
  \<open>re_anchor\<close> is the search of step 3, \<open>re_2578\<close> and \<open>re_2307\<close> give the groups the loops
  keep (file and line number, file and specifier), \<open>re_forbidden\<close>, \<open>re_excerpts\<close> and
  \<open>re_declare_module\<close> are the three searches of the shim audit.
\<close>

record regexes =
  re_anchor :: "string \<Rightarrow> bool"
  re_2578 :: "string \<Rightarrow> hit option"
  re_2307 :: "string \<Rightarrow> (string \<times> string) option"
  re_forbidden :: "string \<Rightarrow> bool"
  re_excerpts :: "string \<Rightarrow> string list"
  re_declare_module :: "string \<Rightarrow> bool"

text \<open>What the processes the script starts answer: the two git commands of step 0, the glob
  of step 1 (already as the lines written), and the type check, whose combined output
  depends on the tree it checks.\<close>

record 'p env =
  git_status :: string
  git_diff :: string
  dts_listing :: "'p tree \<Rightarrow> string list"
  type_check :: "'p tree \<Rightarrow> string"
  path_str :: "'p \<Rightarrow> string"

text \<open>The state: the source tree below \<open>root\<close>, and the files of \<open>OUT\<close> by name.\<close>

record 'p world =
  src_tree :: "'p tree"
  artifacts :: "string \<Rightarrow> string option"

datatype exit = Exit int | Uncaught error

definition write_out :: "string \<Rightarrow> string \<Rightarrow> 'p world \<Rightarrow> 'p world" where
  "write_out name s w = w\<lparr>artifacts := (artifacts w)(name \<mapsto> s)\<rparr>"

text \<open>\<open>open('a')\<close> and \<open>write\<close>.\<close>

definition append_out :: "string \<Rightarrow> string \<Rightarrow> 'p world \<Rightarrow> 'p world" where
  "append_out name s w =
     w\<lparr>artifacts := (artifacts w)
          (name \<mapsto> (case artifacts w name of None \<Rightarrow> s | Some old \<Rightarrow> old @ s))\<rparr>"

text \<open>Steps 0 and 1: the snapshot and the list of declaration files.\<close>

definition snapshot :: "'p env \<Rightarrow> 'p world \<Rightarrow> 'p world" where
  "snapshot ev w =
     write_out ''01_dts_audit.txt''
       (concat (map (\<lambda>l. l @ ''\<newline>'') (dts_listing ev (src_tree w))))
       (write_out ''00_status.txt'' (git_status ev @ ''\<newline>'' @ git_diff ev) w)"

text \<open>The shim guard: \<open>None\<close> lets the run go on, \<open>Some e\<close> ends it.\<close>

definition shim_guard :: "'p pathlib \<Rightarrow> regexes \<Rightarrow> 'p env \<Rightarrow> 'p \<Rightarrow> 'p world \<Rightarrow> exit option \<times> 'p world" where
  "shim_guard os re ev root w =
     (let shim = joinpath os root ''src/types/forge-shims.d.ts'' in
      if exists (src_tree w) shim then
        (case read_text (src_tree w) shim of
           Inl e \<Rightarrow> (Some (Uncaught e), w)
         | Inr s \<Rightarrow>
             if re_forbidden re s then
               (Some (Exit 2),
                append_out ''01_dts_audit.txt''
                  (''ERROR: forbidden content in '' @ path_str ev shim @ ''\<newline>''
                   @ concat (map (\<lambda>m. m @ ''\<newline>'') (re_excerpts re s))) w)
             else if \<not> re_declare_module re s then
               (Some (Exit 3),
                append_out ''01_dts_audit.txt''
                  (''ERROR: shim does not contain module declarations\<newline>'' @ take 200 s) w)
             else (None, w))
      else (None, w))"

text \<open>Step 3: the anchor lines, and the hits of the two loops.\<close>

definition anchor_lines_of :: "regexes \<Rightarrow> string \<Rightarrow> string list" where
  "anchor_lines_of re txt = filter (re_anchor re) (splitlines txt)"

definition hits_2578_of :: "regexes \<Rightarrow> string list \<Rightarrow> hit list" where
  "hits_2578_of re anchor_lines = List.map_filter (re_2578 re) anchor_lines"

definition hits_2307_of :: "regexes \<Rightarrow> string list \<Rightarrow> (string \<times> string) list" where
  "hits_2307_of re anchor_lines = List.map_filter (re_2307 re) anchor_lines"

text \<open>Steps 2 to 5, from the first type check to the report of what remains.\<close>

definition repair :: "'p pathlib \<Rightarrow> regexes \<Rightarrow> 'p env \<Rightarrow> 'p \<Rightarrow> 'p world \<Rightarrow> exit \<times> 'p world" where
  "repair os re ev root w =
     (let before = type_check ev (src_tree w);
          w = write_out ''typecheck_before.txt'' before w;
          anchor_lines = anchor_lines_of re before;
          w = write_out ''03_anchors_before.txt'' (str_join ''\<newline>'' (take 200 anchor_lines)) w
      in case step_4a os root (hits_2578_of re anchor_lines) (src_tree w) of
           Raised e (t, removed) \<Rightarrow> (Uncaught e, w\<lparr>src_tree := t\<rparr>)
         | Completed (t, removed) \<Rightarrow>
             (let w = write_out ''04a_ts2578.txt'' (report_4a removed) (w\<lparr>src_tree := t\<rparr>)
              in case step_4b os root (hits_2307_of re anchor_lines) (src_tree w) of
                   Raised e (t, fixed, skipped, count) \<Rightarrow> (Uncaught e, w\<lparr>src_tree := t\<rparr>)
                 | Completed (t, fixed, skipped, count) \<Rightarrow>
                     (let w = write_out ''04b_ts2307.txt'' (report_4b fixed skipped)
                                (w\<lparr>src_tree := t\<rparr>);
                          after = type_check ev (src_tree w);
                          w = write_out ''typecheck_after.txt'' after w;
                          w = write_out ''06_remaining.txt''
                                (str_join ''\<newline>'' (take 220 (anchor_lines_of re after))) w
                      in (Exit 0, w))))"

text \<open>The script: \<open>argv\<close> is \<open>sys.argv\<close>. What it prints is not modelled.\<close>

definition anchor_fix :: "'p pathlib \<Rightarrow> regexes \<Rightarrow> 'p env \<Rightarrow> 'p \<Rightarrow> string list \<Rightarrow> 'p world \<Rightarrow> exit \<times> 'p world" where
  "anchor_fix os re ev root argv w =
     (if length argv < 2 then (Exit 1, w)
      else
        (case shim_guard os re ev root (snapshot ev w) of
           (Some e, w') \<Rightarrow> (e, w')
         | (None, w') \<Rightarrow> repair os re ev root w'))"

section \<open>Inserting a missing import\<close>

subsection \<open>mech\_fix.py: ensure\_import\<close>

text \<open>The scan \<open>for i, l in enumerate(lines[:80])\<close>, from \<open>last_imp = -1\<close>.\<close>

definition last_import :: "string list \<Rightarrow> int" where
  "last_import lines =
     foldl (\<lambda>last_imp (i, l). if prefix ''import '' l then int i else last_imp) (- 1)
       (enumerate 0 (take 80 lines))"

definition ensure_import :: "string \<Rightarrow> string \<Rightarrow> string" where
  "ensure_import txt imp_line =
     (if sublist imp_line txt then txt
      else
        (let lines = splitlines_keep txt;
             last_imp = last_import lines
         in if last_imp \<ge> 0
            then concat (insert_at (nat (last_imp + 1)) (imp_line @ ''\<newline>'') lines)
            else concat (insert_at 0 (imp_line @ ''\<newline>'') lines)))"

subsection \<open>fix\_tsx.py\<close>

definition react_import :: string where
  \<open>react_import = ''import React from "react";''\<close>

definition view_import :: string where
  \<open>view_import = ''import { view } from "@forge/ui";''\<close>

text \<open>The two blocks that put an import in front of the text; the result is \<open>(txt, changed)\<close>.\<close>

definition add_react :: "string \<Rightarrow> string \<times> bool" where
  \<open>add_react txt =
     (if \<not> sublist ''import React'' txt \<and> \<not> sublist ''from "react"'' txt
         \<and> \<not> sublist (''from '' @ squoted ''react'') txt
      then (react_import @ ''\<newline>'' @ txt, True)
      else (txt, False))\<close>

definition add_view :: "string \<times> bool \<Rightarrow> string \<times> bool" where
  \<open>add_view s =
     (case s of (txt, changed) \<Rightarrow>
        if (sublist ''view('' txt \<or> sublist ''<View'' txt \<or> sublist ''<view'' txt)
           \<and> (\<not> sublist ''from "@forge/ui"'' txt \<and> \<not> sublist (''from '' @ squoted ''@forge/ui'') txt)
        then (view_import @ ''\<newline>'' @ txt, True)
        else (txt, changed))\<close>

text \<open>The script on the file at \<open>p\<close>: \<open>argv\<close> is \<open>sys.argv\<close>, \<open>path_of\<close> is \<open>Path\<close>.\<close>

definition fix_tsx :: "(string \<Rightarrow> 'p) \<Rightarrow> string list \<Rightarrow> 'p tree \<Rightarrow> exit \<times> 'p tree" where
  "fix_tsx path_of argv t =
     (if length argv < 2 then (Exit 2, t)
      else
        (let p = path_of (argv ! 1) in
         if \<not> exists t p then (Exit 0, t)
         else
           (case read_text t p of
              Inl e \<Rightarrow> (Uncaught e, t)
            | Inr orig \<Rightarrow>
                (case add_view (add_react orig) of
                   (txt, changed) \<Rightarrow>
                     if changed \<and> txt \<noteq> orig then (Exit 0, write_text t p txt)
                     else (Exit 0, t)))))"

section \<open>POSIX paths\<close>

text \<open>
  Most theorems below hold for every \<open>pathlib\<close> record. The examples, and what
  \<open>with_suffix\<close> makes of a candidate, need the one of the script: a path is the list of
  its components below \<open>/\<close>, as \<open>PurePosixPath\<close> keeps them (empty components and \<open>.\<close>
  dropped, \<open>..\<close> kept), and \<open>with_suffix\<close> puts the new suffix in the place of the suffix
  of the last component, or after the name when it has none.
\<close>

fun split_slash :: "string \<Rightarrow> string \<Rightarrow> string list" where
  "split_slash cur [] = [cur]"
| "split_slash cur (c # cs) =
     (if c = CHR ''/'' then cur # split_slash [] cs else split_slash (cur @ [c]) cs)"

definition parts_of :: "string \<Rightarrow> string list" where
  "parts_of s = filter (\<lambda>c. c \<noteq> [] \<and> c \<noteq> ''.'') (split_slash [] s)"

text \<open>The suffix of a name: from its last dot on, unless that dot is the first or the last
  character of the name.\<close>

definition name_suffix :: "string \<Rightarrow> string" where
  "name_suffix name =
     (let ext = rev (takeWhile (\<lambda>c. c \<noteq> CHR ''.'') (rev name))
      in if CHR ''.'' \<in> set name \<and> ext \<noteq> [] \<and> length ext + 1 < length name
         then CHR ''.'' # ext else [])"


definition posix_with_suffix :: "string list \<Rightarrow> string \<Rightarrow> string list" where
  "posix_with_suffix p suf =
     (case rev p of
        [] \<Rightarrow> p
      | name # up \<Rightarrow> rev up @ [take (length name - length (name_suffix name)) name @ suf])"

definition posix_relative_to :: "string list \<Rightarrow> string list \<Rightarrow> string option" where
  "posix_relative_to p q =
     (if prefix q p
      then Some (if length p = length q then ''.'' else str_join ''/'' (drop (length q) p))
      else None)"

definition posix :: "string list pathlib" where
  "posix =
     \<lparr> joinpath = (\<lambda>p s. if prefix ''/'' s then parts_of s else p @ parts_of s),
       parent = butlast,
       with_suffix = posix_with_suffix,
       relative_to = posix_relative_to \<rparr>"

definition forge_app :: "string list" where
  "forge_app = [''workspaces'', ''Firsttry'', ''atlassian'', ''forge-app'']"

text \<open>A tree with one file below \<open>forge_app\<close>, and the state a run ends in.\<close>

definition one_file :: "string \<Rightarrow> string \<Rightarrow> string list tree" where
  "one_file file s = (\<lambda>p. if p = forge_app @ parts_of file then Some (File s) else None)"

fun final :: "'s run \<Rightarrow> 's" where
  "final (Completed s) = s"
| "final (Raised e s) = s"

fun completed :: "'s run \<Rightarrow> bool" where
  "completed (Completed s) = True"
| "completed (Raised e s) = False"

text \<open>Stand-ins for the regular expressions and for the processes, for the examples: on the
  shim texts used there they answer as the script's expressions do.\<close>

definition demo_re :: regexes where
  "demo_re =
     \<lparr> re_anchor = sublist ''error TS'',
       re_2578 = (\<lambda>ln. None),
       re_2307 = (\<lambda>ln. None),
       re_forbidden = sublist ''declare global'',
       re_excerpts = (\<lambda>s. [s]),
       re_declare_module = prefix ''declare module '' \<rparr>"

definition demo_env :: "string list env" where
  "demo_env =
     \<lparr> git_status = [], git_diff = [],
       dts_listing = (\<lambda>t. [''src/types/forge-shims.d.ts'']),
       type_check = (\<lambda>t. []),
       path_str = (\<lambda>p. CHR ''/'' # str_join ''/'' p) \<rparr>"

definition shim_world :: "string \<Rightarrow> string list world" where
  "shim_world s =
     \<lparr> src_tree = one_file ''src/types/forge-shims.d.ts'' s, artifacts = (\<lambda>n. None) \<rparr>"

text \<open>A tree with two files, and the 21 lines of an example: \<open>a\<close> at line 10, \<open>b\<close> at
  line 20.\<close>

definition two_files :: "string \<Rightarrow> string \<Rightarrow> string \<Rightarrow> string \<Rightarrow> string list tree" where
  "two_files f s g u =
     (\<lambda>p. if p = forge_app @ parts_of f then Some (File s)
           else if p = forge_app @ parts_of g then Some (File u) else None)"

definition numbered :: "string \<Rightarrow> string \<Rightarrow> string list" where
  "numbered a b =
     map (\<lambda>i. if i = 10 then a else if i = 20 then b else ''code\<newline>'') [1..<22]"

text \<open>A tree with two importing files and their targets, and a text with two imports.\<close>

definition import_tree :: "string list tree" where
  "import_tree =
     (\<lambda>p. if p = forge_app @ [''src'', ''a.ts'']
             then Some (File (''import x from '' @ squoted ''./foo.tsx.js'' @ '';\<newline>''))
           else if p = forge_app @ [''src'', ''foo.tsx.ts''] then Some (File [])
           else if p = forge_app @ [''src'', ''b.ts'']
             then Some (File (''import y from '' @ dquoted ''./lib.js'' @ '';\<newline>''))
           else if p = forge_app @ [''src'', ''lib.ts''] then Some (File [])
           else None)"

definition with_imports :: string where
  \<open>with_imports = ''import a from "a";\<newline>import b from "b";\<newline>const x = 1;\<newline>''\<close>

text \<open>A checker for the examples: it reports the stale directive of \<open>src/a.ts\<close> as long
  as the file has it, and the expressions read that line as the script's do.\<close>

definition unused_line :: string where
  "unused_line = ''src/a.ts(1,1): error TS2578: Unused '' @ squoted ''@ts-expect-error'' @ '' directive.''"

definition checker_re :: regexes where
  "checker_re =
     \<lparr> re_anchor = sublist ''error TS'',
       re_2578 = (\<lambda>ln. if ln = unused_line then Some (''src/a.ts'', 1) else None),
       re_2307 = (\<lambda>ln. None),
       re_forbidden = sublist ''declare global'',
       re_excerpts = (\<lambda>s. [s]),
       re_declare_module = prefix ''declare module '' \<rparr>"

definition checker_env :: "string list env" where
  "checker_env =
     \<lparr> git_status = [], git_diff = [],
       dts_listing = (\<lambda>t. []),
       type_check = (\<lambda>t. if t (forge_app @ [''src'', ''a.ts''])
                               = Some (File ''// @ts-expect-error\<newline>f(1);\<newline>'')
                            then unused_line @ ''\<newline>'' else []),
       path_str = (\<lambda>p. CHR ''/'' # str_join ''/'' p) \<rparr>"

definition stale_world :: "string list world" where
  "stale_world =
     \<lparr> src_tree = one_file ''src/a.ts'' ''// @ts-expect-error\<newline>f(1);\<newline>'',
       artifacts = (\<lambda>n. None) \<rparr>"




section \<open>Properties\<close>

lemma concat_splitlines_from: "concat (splitlines_from True cur s) = cur @ s"
  by (induction "True" cur s rule: splitlines_from.induct) (auto split: list.splits)

lemma concat_splitlines_keep: "concat (splitlines_keep s) = s"
  by (simp add: splitlines_keep_def concat_splitlines_from)

subsection \<open>The import resolver\<close>







subsection \<open>The shim guard\<close>

lemma artifacts_write_out: "artifacts (write_out n s w) m = (if m = n then Some s else artifacts w m)"
  by (simp add: write_out_def)

lemma src_tree_write_out: "src_tree (write_out n s w) = src_tree w"
  by (simp add: write_out_def)

lemma artifacts_append_out:
  "artifacts (append_out n s w) m =
     (if m = n then Some (case artifacts w n of None \<Rightarrow> s | Some old \<Rightarrow> old @ s) else artifacts w m)"
  by (simp add: append_out_def)

lemma src_tree_append_out: "src_tree (append_out n s w) = src_tree w"
  by (simp add: append_out_def)

lemma src_tree_snapshot: "src_tree (snapshot ev w) = src_tree w"
  by (simp add: snapshot_def src_tree_write_out)

lemma audit_snapshot:
  "artifacts (snapshot ev w) ''01_dts_audit.txt''
     = Some (concat (map (\<lambda>l. l @ ''\<newline>'') (dts_listing ev (src_tree w))))"
  by (simp add: snapshot_def artifacts_write_out src_tree_write_out)

text \<open>
  Claim C7. Without the output directory argument the script exits with code 1 and leaves
  the state as it was. A shim with forbidden content gives exit code 2, a shim without a
  module declaration exit code 3; in both cases the source tree is the one the run
  started with, and the audit artifact holds the list of declaration files followed by the
  error line and the excerpts (the matches, or the first 200 characters of the shim).
\<close>

theorem shim_guard_exits:
  "(length argv < 2 \<longrightarrow> anchor_fix os re ev root argv w = (Exit 1, w))
   \<and> (\<not> length argv < 2
        \<and> src_tree w (joinpath os root ''src/types/forge-shims.d.ts'') = Some (File s)
        \<and> re_forbidden re s
      \<longrightarrow> fst (anchor_fix os re ev root argv w) = Exit 2
        \<and> src_tree (snd (anchor_fix os re ev root argv w)) = src_tree w
        \<and> artifacts (snd (anchor_fix os re ev root argv w)) ''01_dts_audit.txt''
            = Some (concat (map (\<lambda>l. l @ ''\<newline>'') (dts_listing ev (src_tree w)))
                @ ''ERROR: forbidden content in ''
                @ path_str ev (joinpath os root ''src/types/forge-shims.d.ts'') @ ''\<newline>''
                @ concat (map (\<lambda>m. m @ ''\<newline>'') (re_excerpts re s))))
   \<and> (\<not> length argv < 2
        \<and> src_tree w (joinpath os root ''src/types/forge-shims.d.ts'') = Some (File s)
        \<and> \<not> re_forbidden re s \<and> \<not> re_declare_module re s
      \<longrightarrow> fst (anchor_fix os re ev root argv w) = Exit 3
        \<and> src_tree (snd (anchor_fix os re ev root argv w)) = src_tree w
        \<and> artifacts (snd (anchor_fix os re ev root argv w)) ''01_dts_audit.txt''
            = Some (concat (map (\<lambda>l. l @ ''\<newline>'') (dts_listing ev (src_tree w)))
                @ ''ERROR: shim does not contain module declarations\<newline>'' @ take 200 s))"
  by (simp add: anchor_fix_def shim_guard_def exists_def read_text_def src_tree_snapshot
      audit_snapshot artifacts_append_out src_tree_append_out)

theorem shim_guard_exits_witness:
  "fst (anchor_fix posix demo_re demo_env forge_app [''anchor_fix.py''] (shim_world ''declare global {}'')) = Exit 1
   \<and> fst (anchor_fix posix demo_re demo_env forge_app [''anchor_fix.py'', ''out''] (shim_world ''declare global {}'')) = Exit 2
   \<and> artifacts (snd (anchor_fix posix demo_re demo_env forge_app [''anchor_fix.py'', ''out''] (shim_world ''declare global {}''))) ''01_dts_audit.txt''
       = Some (''src/types/forge-shims.d.ts\<newline>ERROR: forbidden content in /workspaces/Firsttry/atlassian/forge-app/src/types/forge-shims.d.ts\<newline>declare global {}\<newline>'')
   \<and> fst (anchor_fix posix demo_re demo_env forge_app [''anchor_fix.py'', ''out''] (shim_world ''export {}'')) = Exit 3
   \<and> artifacts (snd (anchor_fix posix demo_re demo_env forge_app [''anchor_fix.py'', ''out''] (shim_world ''export {}''))) ''01_dts_audit.txt''
       = Some (''src/types/forge-shims.d.ts\<newline>ERROR: shim does not contain module declarations\<newline>export {}'')"
proof -
  let ?shim = "joinpath posix forge_app ''src/types/forge-shims.d.ts''"
  let ?argv = "[''anchor_fix.py'', ''out'']"
  have shim: "?shim = forge_app @ [''src'', ''types'', ''forge-shims.d.ts'']"
    by (simp add: posix_def parts_of_def)
  have shim_file: "src_tree (shim_world s) ?shim = Some (File s)" for s
    by (simp add: shim shim_world_def one_file_def parts_of_def)
  have listing: "dts_listing demo_env t = [''src/types/forge-shims.d.ts'']" for t
    by (simp add: demo_env_def)
  have str: "path_str demo_env ?shim
      = ''/workspaces/Firsttry/atlassian/forge-app/src/types/forge-shims.d.ts''"
    by (simp add: posix_def parts_of_def demo_env_def forge_app_def)
  have forbidden: "re_forbidden demo_re ''declare global {}''"
    by code_simp
  have excerpts: "re_excerpts demo_re ''declare global {}'' = [''declare global {}'']"
    by (simp add: demo_re_def)
  have plain: "\<not> re_forbidden demo_re ''export {}'' \<and> \<not> re_declare_module demo_re ''export {}''"
    by code_simp
  have usage: "fst (anchor_fix posix demo_re demo_env forge_app [''anchor_fix.py'']
      (shim_world ''declare global {}'')) = Exit 1"
    using shim_guard_exits [where argv = "[''anchor_fix.py'']" and os = posix and re = demo_re
      and ev = demo_env and root = forge_app and w = "shim_world ''declare global {}''"]
    by simp
  have two: "fst (anchor_fix posix demo_re demo_env forge_app ?argv (shim_world ''declare global {}'')) = Exit 2
      \<and> artifacts (snd (anchor_fix posix demo_re demo_env forge_app ?argv (shim_world ''declare global {}''))) ''01_dts_audit.txt''
       = Some (''src/types/forge-shims.d.ts\<newline>ERROR: forbidden content in /workspaces/Firsttry/atlassian/forge-app/src/types/forge-shims.d.ts\<newline>declare global {}\<newline>'')"
    using shim_guard_exits [where argv = ?argv and os = posix and re = demo_re
      and ev = demo_env and root = forge_app and w = "shim_world ''declare global {}''"
      and s = "''declare global {}''"] shim_file forbidden
    by (simp add: listing str excerpts)
  have three: "fst (anchor_fix posix demo_re demo_env forge_app ?argv (shim_world ''export {}'')) = Exit 3
      \<and> artifacts (snd (anchor_fix posix demo_re demo_env forge_app ?argv (shim_world ''export {}''))) ''01_dts_audit.txt''
       = Some (''src/types/forge-shims.d.ts\<newline>ERROR: shim does not contain module declarations\<newline>export {}'')"
    using shim_guard_exits [where argv = ?argv and os = posix and re = demo_re
      and ev = demo_env and root = forge_app and w = "shim_world ''export {}''"
      and s = "''export {}''"] shim_file plain
    by (simp add: listing)
  show ?thesis
    using usage two three by blast
qed

lemma repair_exit:
  "fst (repair os re ev root w) = Exit 0 \<or> (\<exists>e. fst (repair os re ev root w) = Uncaught e)"
  by (auto simp: repair_def Let_def split: run.splits prod.splits)

lemma repair_audit:
  "artifacts (snd (repair os re ev root w)) ''01_dts_audit.txt'' = artifacts w ''01_dts_audit.txt''"
  by (auto simp: repair_def Let_def artifacts_write_out split: run.splits prod.splits)



subsection \<open>What step 4A can touch\<close>


subsection \<open>Order and repetition of the anchors\<close>

text \<open>
  Claim C1. The file has 21 lines with the directive at lines 10 and 20, and the hits are
  lines 10 and 20 in this order. Step 4A of anchor\_fix.py takes them as they come: it
  removes line 10, then looks at what is now line 20 (line 21 of the original), finds no
  directive and removes nothing, so the directive of line 20 stays; remove\_ts\_expect.py,
  which sorts the lines of a file in decreasing order, removes both.
\<close>

theorem anchor_fix_appearance_order:
  "fst (final (step_4a posix forge_app [(''src/a.ts'', 10), (''src/a.ts'', 20)]
         (one_file ''src/a.ts''
            (concat (numbered ''// @ts-expect-error A\<newline>'' ''// @ts-expect-error B\<newline>'')))))
     (forge_app @ [''src'', ''a.ts''])
   = Some (File (concat (replicate 18 ''code\<newline>'' @ [''// @ts-expect-error B\<newline>'', ''code\<newline>''])))
   \<and> snd (final (step_4a posix forge_app [(''src/a.ts'', 10), (''src/a.ts'', 20)]
         (one_file ''src/a.ts''
            (concat (numbered ''// @ts-expect-error A\<newline>'' ''// @ts-expect-error B\<newline>'')))))
   = [(''src/a.ts'', 10)]
   \<and> fst (final (remove_ts_expect posix forge_app [(''src/a.ts'', 10), (''src/a.ts'', 20)]
         (one_file ''src/a.ts''
            (concat (numbered ''// @ts-expect-error A\<newline>'' ''// @ts-expect-error B\<newline>'')))))
     (forge_app @ [''src'', ''a.ts''])
   = Some (File (concat (replicate 19 ''code\<newline>'')))"
  by code_simp

text \<open>
  Claim C3. Two hits name line 1 of a file whose lines 1 and 2 hold the directive. Step 4A
  of anchor\_fix.py removes a line for each of them, so the second hit changes the file
  again; remove\_ts\_expect.py, which makes a set of the lines of a file, removes one line.
\<close>

theorem anchor_fix_repeated_anchor:
  "fst (final (step_4a posix forge_app [(''src/a.ts'', 1), (''src/a.ts'', 1)]
         (one_file ''src/a.ts'' ''// @ts-expect-error\<newline>// @ts-expect-error\<newline>f(1);\<newline>'')))
     (forge_app @ [''src'', ''a.ts''])
   = Some (File ''f(1);\<newline>'')
   \<and> snd (final (step_4a posix forge_app [(''src/a.ts'', 1), (''src/a.ts'', 1)]
         (one_file ''src/a.ts'' ''// @ts-expect-error\<newline>// @ts-expect-error\<newline>f(1);\<newline>'')))
   = [(''src/a.ts'', 1), (''src/a.ts'', 1)]
   \<and> fst (final (remove_ts_expect posix forge_app [(''src/a.ts'', 1), (''src/a.ts'', 1)]
         (one_file ''src/a.ts'' ''// @ts-expect-error\<newline>// @ts-expect-error\<newline>f(1);\<newline>'')))
     (forge_app @ [''src'', ''a.ts''])
   = Some (File ''// @ts-expect-error\<newline>f(1);\<newline>'')"
  by code_simp

subsection \<open>A second run over the same anchors\<close>

lemma directive_at_nonempty:
  assumes "directive_at ls ln"
  shows "nat (ln - 1) < length ls \<and> ls ! nat (ln - 1) \<noteq> []"
  using assms by (auto simp: directive_at_def Let_def directive_def)

lemma length_concat_pop:
  assumes "i < length xs" "xs ! i \<noteq> []"
  shows "length (concat (pop i xs)) < length (concat xs)"
proof -
  have "xs = take i xs @ xs ! i # drop (Suc i) xs"
    using assms(1) by (rule id_take_nth_drop)
  then have "concat xs = concat (take i xs) @ xs ! i @ concat (drop (Suc i) xs)"
    by (metis concat.simps(2) concat_append)
  then have "length (concat xs)
      = length (concat (take i xs)) + length (xs ! i) + length (concat (drop (Suc i) xs))"
    by simp
  moreover have "length (xs ! i) > 0" using assms(2) by simp
  ultimately show ?thesis by (simp add: pop_def)
qed

lemma expect_loop_idle:
  "list_all (\<lambda>l. \<not> directive_at ls l) lns \<Longrightarrow> expect_loop f lns (ls, ch, rmd) = (ls, ch, rmd)"
  by (induction lns) auto

lemma expect_loop_shrinks:
  "expect_loop f lns (ls, ch, rmd) = (ls', ch', rmd') \<Longrightarrow>
     length (concat ls') \<le> length (concat ls)
     \<and> (ch' \<longrightarrow> ch \<or> length (concat ls') < length (concat ls))"
proof (induction lns arbitrary: ls ch rmd)
  case Nil
  then show ?case by simp
next
  case (Cons l lns)
  show ?case
  proof (cases "directive_at ls l")
    case True
    let ?txt1 = "pop (nat (l - 1)) ls"
    from True Cons.prems
    have "expect_loop f lns (?txt1, True, rmd @ [(f, l)]) = (ls', ch', rmd')"
      by simp
    from Cons.IH [OF this] have "length (concat ls') \<le> length (concat ?txt1)" by simp
    moreover have "length (concat ?txt1) < length (concat ls)"
      using directive_at_nonempty [OF True] by (simp add: length_concat_pop)
    ultimately show ?thesis by simp
  next
    case False
    with Cons.prems have "expect_loop f lns (ls, ch, rmd) = (ls', ch', rmd')" by simp
    from Cons.IH [OF this] show ?thesis .
  qed
qed

lemma expect_loop_keeps_changed:
  "expect_loop f lns (ls, ch, rmd) = (ls', ch', rmd') \<Longrightarrow> ch \<Longrightarrow> ch'"
  by (induction lns arbitrary: ls ch rmd) (auto split: if_splits)

lemma expect_loop_fires:
  "\<not> list_all (\<lambda>l. \<not> directive_at ls l) lns \<Longrightarrow>
   expect_loop f lns (ls, ch, rmd) = (ls', ch', rmd') \<Longrightarrow>
     ch' \<and> length (concat ls') < length (concat ls)"
proof (induction lns arbitrary: ls ch rmd)
  case Nil
  then show ?case by simp
next
  case (Cons l lns)
  show ?case
  proof (cases "directive_at ls l")
    case True
    let ?txt1 = "pop (nat (l - 1)) ls"
    from True Cons.prems
    have run: "expect_loop f lns (?txt1, True, rmd @ [(f, l)]) = (ls', ch', rmd')"
      by simp
    have ch: "ch'"
      using expect_loop_keeps_changed [OF run] by simp
    from expect_loop_shrinks [OF run] have "length (concat ls') \<le> length (concat ?txt1)" by simp
    moreover have "length (concat ?txt1) < length (concat ls)"
      using directive_at_nonempty [OF True] by (simp add: length_concat_pop)
    ultimately show ?thesis using ch by simp
  next
    case False
    with Cons.prems have "expect_loop f lns (ls, ch, rmd) = (ls', ch', rmd')"
      and "\<not> list_all (\<lambda>l. \<not> directive_at ls l) lns" by simp_all
    from Cons.IH [OF this(2) this(1)] show ?thesis .
  qed
qed

lemma text_size_write_shrinks:
  "t p = Some (File s) \<Longrightarrow> length s' < length s \<Longrightarrow>
     text_size (write_text t p s') p < text_size t p
     \<and> (\<forall>q. text_size (write_text t p s') q \<le> text_size t q)"
  by (simp add: text_size_def write_text_def)

lemma is_dir_write: "t p = Some (File s) \<Longrightarrow> (write_text t p s' q = Some Dir) = (t q = Some Dir)"
  by (simp add: write_text_def)

lemma loop_2578_none:
  "t (joinpath os root f) = None \<Longrightarrow>
     loop_2578 os root ((f, l) # hits) (t, rmd) = loop_2578 os root hits (t, rmd)"
  by (simp add: exists_def)

lemma loop_2578_dir:
  "t (joinpath os root f) = Some Dir \<Longrightarrow>
     loop_2578 os root ((f, l) # hits) (t, rmd) = Raised IsADirectoryError (t, rmd)"
  by (simp add: exists_def read_text_def)

lemma loop_2578_file:
  "t (joinpath os root f) = Some (File s) \<Longrightarrow>
     loop_2578 os root ((f, l) # hits) (t, rmd) =
       (if directive_at (splitlines_keep s) l
        then loop_2578 os root hits
               (write_text t (joinpath os root f) (concat (pop (nat (l - 1)) (splitlines_keep s))),
                rmd @ [(f, l)])
        else loop_2578 os root hits (t, rmd))"
  by (simp add: exists_def read_text_def Let_def)

declare loop_2578.simps(2) [simp del]

lemma pop_shorter:
  assumes "directive_at (splitlines_keep s) l"
  shows "length (concat (pop (nat (l - 1)) (splitlines_keep s))) < length s"
proof -
  from directive_at_nonempty [OF assms]
  have "length (concat (pop (nat (l - 1)) (splitlines_keep s))) < length (concat (splitlines_keep s))"
    by (simp add: length_concat_pop)
  then show ?thesis by (simp add: concat_splitlines_keep)
qed

lemma loop_2578_completed:
  "loop_2578 os root hits (t, rmd) = Completed (t', rmd') \<Longrightarrow>
     list_all (\<lambda>h. t (joinpath os root (fst h)) \<noteq> Some Dir) hits
     \<and> (\<forall>p. (t' p = Some Dir) = (t p = Some Dir))"
proof (induction hits arbitrary: t rmd)
  case Nil
  then show ?case by simp
next
  case (Cons h hits)
  obtain f l where h: "h = (f, l)" by (cases h)
  let ?p = "joinpath os root f"
  consider "t ?p = None" | "t ?p = Some Dir" | s where "t ?p = Some (File s)"
    by (cases "t ?p") (auto intro: node.exhaust)
  then show ?case
  proof cases
    case 1
    with Cons.prems h have "loop_2578 os root hits (t, rmd) = Completed (t', rmd')"
      by (simp add: loop_2578_none)
    from Cons.IH [OF this] 1 h show ?thesis by simp
  next
    case 2
    with Cons.prems h show ?thesis by (simp add: loop_2578_dir)
  next
    case (3 s)
    show ?thesis
    proof (cases "directive_at (splitlines_keep s) l")
      case True
      let ?t1 = "write_text t ?p (concat (pop (nat (l - 1)) (splitlines_keep s)))"
      from True 3 Cons.prems h
      have "loop_2578 os root hits (?t1, rmd @ [(f, l)]) = Completed (t', rmd')"
        by (simp add: loop_2578_file)
      from Cons.IH [OF this]
      have a: "list_all (\<lambda>h. ?t1 (joinpath os root (fst h)) \<noteq> Some Dir) hits"
        and b: "\<forall>p. (t' p = Some Dir) = (?t1 p = Some Dir)" by simp_all
      from a have "list_all (\<lambda>h. t (joinpath os root (fst h)) \<noteq> Some Dir) hits"
        by (simp add: is_dir_write [of t "joinpath os root f" s, OF 3])
      moreover from b have "\<forall>p. (t' p = Some Dir) = (t p = Some Dir)"
        by (simp add: is_dir_write [of t "joinpath os root f" s, OF 3])
      ultimately show ?thesis using 3 h by simp
    next
      case False
      with 3 Cons.prems h have "loop_2578 os root hits (t, rmd) = Completed (t', rmd')"
        by (simp add: loop_2578_file)
      from Cons.IH [OF this] 3 h show ?thesis by simp
    qed
  qed
qed

lemma loop_2578_shrinks:
  "final (loop_2578 os root hits (t, rmd)) = (t', rmd') \<Longrightarrow> text_size t' q \<le> text_size t q"
proof (induction hits arbitrary: t rmd)
  case Nil
  then show ?case by simp
next
  case (Cons h hits)
  obtain f l where h: "h = (f, l)" by (cases h)
  let ?p = "joinpath os root f"
  consider "t ?p = None" | "t ?p = Some Dir" | s where "t ?p = Some (File s)"
    by (cases "t ?p") (auto intro: node.exhaust)
  then show ?case
  proof cases
    case 1
    with Cons.prems h have "final (loop_2578 os root hits (t, rmd)) = (t', rmd')"
      by (simp add: loop_2578_none)
    from Cons.IH [OF this] show ?thesis .
  next
    case 2
    with Cons.prems h show ?thesis by (simp add: loop_2578_dir)
  next
    case (3 s)
    show ?thesis
    proof (cases "directive_at (splitlines_keep s) l")
      case True
      let ?t1 = "write_text t ?p (concat (pop (nat (l - 1)) (splitlines_keep s)))"
      from True 3 Cons.prems h
      have "final (loop_2578 os root hits (?t1, rmd @ [(f, l)])) = (t', rmd')"
        by (simp add: loop_2578_file)
      from Cons.IH [OF this] have "text_size t' q \<le> text_size ?t1 q" .
      also have "\<dots> \<le> text_size t q"
        using text_size_write_shrinks [of t "joinpath os root f" s, OF 3 pop_shorter [OF True]] by simp
      finally show ?thesis .
    next
      case False
      with 3 Cons.prems h have "final (loop_2578 os root hits (t, rmd)) = (t', rmd')"
        by (simp add: loop_2578_file)
      from Cons.IH [OF this] show ?thesis .
    qed
  qed
qed

lemma loop_2578_idle:
  "list_all (\<lambda>h. t (joinpath os root (fst h)) \<noteq> Some Dir) hits \<Longrightarrow>
   list_all (\<lambda>h. \<not> anchored_directive os root t h) hits \<Longrightarrow>
     loop_2578 os root hits (t, rmd) = Completed (t, rmd)"
proof (induction hits)
  case Nil
  then show ?case by simp
next
  case (Cons h hits)
  obtain f l where h: "h = (f, l)" by (cases h)
  let ?p = "joinpath os root f"
  consider "t ?p = None" | "t ?p = Some Dir" | s where "t ?p = Some (File s)"
    by (cases "t ?p") (auto intro: node.exhaust)
  then show ?case
  proof cases
    case 1
    with Cons h show ?thesis by (simp add: loop_2578_none)
  next
    case 2
    with Cons.prems h show ?thesis by simp
  next
    case (3 s)
    with Cons h show ?thesis by (simp add: loop_2578_file anchored_directive_def)
  qed
qed

lemma loop_2578_fires:
  "list_all (\<lambda>h. t (joinpath os root (fst h)) \<noteq> Some Dir) hits \<Longrightarrow>
   \<not> list_all (\<lambda>h. \<not> anchored_directive os root t h) hits \<Longrightarrow>
     \<exists>q. text_size (fst (final (loop_2578 os root hits (t, rmd)))) q < text_size t q"
proof (induction hits)
  case Nil
  then show ?case by simp
next
  case (Cons h hits)
  obtain f l where h: "h = (f, l)" by (cases h)
  let ?p = "joinpath os root f"
  consider "t ?p = None" | "t ?p = Some Dir" | s where "t ?p = Some (File s)"
    by (cases "t ?p") (auto intro: node.exhaust)
  then show ?case
  proof cases
    case 1
    with Cons h show ?thesis by (simp add: loop_2578_none anchored_directive_def)
  next
    case 2
    with Cons.prems h show ?thesis by simp
  next
    case (3 s)
    show ?thesis
    proof (cases "directive_at (splitlines_keep s) l")
      case True
      let ?t1 = "write_text t ?p (concat (pop (nat (l - 1)) (splitlines_keep s)))"
      let ?r = "final (loop_2578 os root hits (?t1, rmd @ [(f, l)]))"
      have "?r = (fst ?r, snd ?r)" by simp
      from loop_2578_shrinks [OF this] have "text_size (fst ?r) ?p \<le> text_size ?t1 ?p" .
      also have "\<dots> < text_size t ?p"
        using text_size_write_shrinks [of t "joinpath os root f" s, OF 3 pop_shorter [OF True]] by simp
      finally show ?thesis using True 3 h by (auto simp: loop_2578_file)
    next
      case False
      with Cons 3 h show ?thesis by (simp add: loop_2578_file anchored_directive_def)
    qed
  qed
qed

lemma step_4a_second_run:
  assumes "step_4a os root hits t = Completed (t1, r1)"
  shows "(fst (final (step_4a os root hits t1)) = t1)
           = list_all (\<lambda>h. \<not> anchored_directive os root t1 h) (take 20 hits)"
    and "list_all (\<lambda>h. \<not> anchored_directive os root t1 h) (take 20 hits)
           \<Longrightarrow> step_4a os root hits t1 = Completed (t1, [])"
proof -
  from assms loop_2578_completed [of os root "take 20 hits" t "[]" t1 r1]
  have nodir: "list_all (\<lambda>h. t1 (joinpath os root (fst h)) \<noteq> Some Dir) (take 20 hits)"
    by (simp add: step_4a_def list_all_iff)
  show idle: "step_4a os root hits t1 = Completed (t1, [])"
    if "list_all (\<lambda>h. \<not> anchored_directive os root t1 h) (take 20 hits)"
    using loop_2578_idle [OF nodir that] by (simp add: step_4a_def)
  show "(fst (final (step_4a os root hits t1)) = t1)
           = list_all (\<lambda>h. \<not> anchored_directive os root t1 h) (take 20 hits)"
  proof (cases "list_all (\<lambda>h. \<not> anchored_directive os root t1 h) (take 20 hits)")
    case True
    with idle show ?thesis by simp
  next
    case False
    from loop_2578_fires [OF nodir False, of "[]"]
    obtain q where "text_size (fst (final (step_4a os root hits t1))) q < text_size t1 q"
      by (auto simp: step_4a_def)
    then have "fst (final (step_4a os root hits t1)) \<noteq> t1" by auto
    with False show ?thesis by simp
  qed
qed

lemma expect_files_none:
  "t (joinpath os root f) = None \<Longrightarrow>
     expect_files os root ((f, lines) # groups) (t, rmd) = expect_files os root groups (t, rmd)"
  by (simp add: exists_def)

lemma expect_files_dir:
  "t (joinpath os root f) = Some Dir \<Longrightarrow>
     expect_files os root ((f, lines) # groups) (t, rmd) = Raised IsADirectoryError (t, rmd)"
  by (simp add: exists_def read_text_def)

lemma expect_files_file:
  "t (joinpath os root f) = Some (File s) \<Longrightarrow>
   expect_loop f (lines_sorted lines) (splitlines_keep s, False, rmd) = (ls', ch', rmd') \<Longrightarrow>
     expect_files os root ((f, lines) # groups) (t, rmd) =
       (if ch' then expect_files os root groups (write_text t (joinpath os root f) (concat ls'), rmd')
        else expect_files os root groups (t, rmd'))"
  by (simp add: exists_def read_text_def Let_def)

declare expect_files.simps(2) [simp del]

lemma list_all_lines_sorted: "list_all P (lines_sorted lines) = list_all P lines"
  by (simp add: lines_sorted_def list_all_iff)

lemma expect_loop_result:
  "\<exists>ls' ch' rmd'. expect_loop f lns (ls, ch, rmd) = (ls', ch', rmd')"
  by (metis prod_cases3)

lemma expect_files_completed:
  "expect_files os root groups (t, rmd) = Completed (t', rmd') \<Longrightarrow>
     list_all (\<lambda>g. t (joinpath os root (fst g)) \<noteq> Some Dir) groups
     \<and> (\<forall>p. (t' p = Some Dir) = (t p = Some Dir))"
proof (induction groups arbitrary: t rmd)
  case Nil
  then show ?case by simp
next
  case (Cons g groups)
  obtain f lines where g: "g = (f, lines)" by (cases g)
  let ?p = "joinpath os root f"
  consider "t ?p = None" | "t ?p = Some Dir" | s where "t ?p = Some (File s)"
    by (cases "t ?p") (auto intro: node.exhaust)
  then show ?case
  proof cases
    case 1
    with Cons.prems g have "expect_files os root groups (t, rmd) = Completed (t', rmd')"
      by (simp add: expect_files_none)
    from Cons.IH [OF this] 1 g show ?thesis by simp
  next
    case 2
    with Cons.prems g show ?thesis by (simp add: expect_files_dir)
  next
    case (3 s)
    obtain ls' ch' rmd1
      where loop: "expect_loop f (lines_sorted lines) (splitlines_keep s, False, rmd) = (ls', ch', rmd1)"
      using expect_loop_result by blast
    show ?thesis
    proof (cases ch')
      case True
      let ?t1 = "write_text t ?p (concat ls')"
      from True Cons.prems g expect_files_file [where t = t and os = os and root = root and f = f, OF 3 loop]
      have "expect_files os root groups (?t1, rmd1) = Completed (t', rmd')" by simp
      from Cons.IH [OF this]
      have a: "list_all (\<lambda>g. ?t1 (joinpath os root (fst g)) \<noteq> Some Dir) groups"
        and b: "\<forall>p. (t' p = Some Dir) = (?t1 p = Some Dir)" by simp_all
      from a have "list_all (\<lambda>g. t (joinpath os root (fst g)) \<noteq> Some Dir) groups"
        by (simp add: is_dir_write [of t "joinpath os root f" s, OF 3])
      moreover from b have "\<forall>p. (t' p = Some Dir) = (t p = Some Dir)"
        by (simp add: is_dir_write [of t "joinpath os root f" s, OF 3])
      ultimately show ?thesis using 3 g by simp
    next
      case False
      with Cons.prems g expect_files_file [where t = t and os = os and root = root and f = f, OF 3 loop]
      have "expect_files os root groups (t, rmd1) = Completed (t', rmd')" by simp
      from Cons.IH [OF this] 3 g show ?thesis by simp
    qed
  qed
qed

lemma expect_files_shrinks:
  "final (expect_files os root groups (t, rmd)) = (t', rmd') \<Longrightarrow> text_size t' q \<le> text_size t q"
proof (induction groups arbitrary: t rmd)
  case Nil
  then show ?case by simp
next
  case (Cons g groups)
  obtain f lines where g: "g = (f, lines)" by (cases g)
  let ?p = "joinpath os root f"
  consider "t ?p = None" | "t ?p = Some Dir" | s where "t ?p = Some (File s)"
    by (cases "t ?p") (auto intro: node.exhaust)
  then show ?case
  proof cases
    case 1
    with Cons.prems g have "final (expect_files os root groups (t, rmd)) = (t', rmd')"
      by (simp add: expect_files_none)
    from Cons.IH [OF this] show ?thesis .
  next
    case 2
    with Cons.prems g show ?thesis by (simp add: expect_files_dir)
  next
    case (3 s)
    obtain ls' ch' rmd1
      where loop: "expect_loop f (lines_sorted lines) (splitlines_keep s, False, rmd) = (ls', ch', rmd1)"
      using expect_loop_result by blast
    show ?thesis
    proof (cases ch')
      case True
      let ?t1 = "write_text t ?p (concat ls')"
      from True Cons.prems g expect_files_file [where t = t and os = os and root = root and f = f, OF 3 loop]
      have "final (expect_files os root groups (?t1, rmd1)) = (t', rmd')" by simp
      from Cons.IH [OF this] have "text_size t' q \<le> text_size ?t1 q" .
      moreover from expect_loop_shrinks [OF loop] True
      have "length (concat ls') < length s" by (simp add: concat_splitlines_keep)
      from text_size_write_shrinks [of t "joinpath os root f" s, OF 3 this]
      have "text_size ?t1 q \<le> text_size t q" by simp
      ultimately show ?thesis by simp
    next
      case False
      with Cons.prems g expect_files_file [where t = t and os = os and root = root and f = f, OF 3 loop]
      have "final (expect_files os root groups (t, rmd1)) = (t', rmd')" by simp
      from Cons.IH [OF this] show ?thesis .
    qed
  qed
qed

lemma expect_files_idle:
  "list_all (\<lambda>g. t (joinpath os root (fst g)) \<noteq> Some Dir) groups \<Longrightarrow>
   list_all (\<lambda>g. list_all (\<lambda>l. \<not> anchored_directive os root t (fst g, l)) (snd g)) groups \<Longrightarrow>
     expect_files os root groups (t, rmd) = Completed (t, rmd)"
proof (induction groups)
  case Nil
  then show ?case by simp
next
  case (Cons g groups)
  obtain f lines where g: "g = (f, lines)" by (cases g)
  let ?p = "joinpath os root f"
  consider "t ?p = None" | "t ?p = Some Dir" | s where "t ?p = Some (File s)"
    by (cases "t ?p") (auto intro: node.exhaust)
  then show ?case
  proof cases
    case 1
    with Cons g show ?thesis by (simp add: expect_files_none)
  next
    case 2
    with Cons.prems g show ?thesis by simp
  next
    case (3 s)
    from Cons.prems(2) g 3
    have "list_all (\<lambda>l. \<not> directive_at (splitlines_keep s) l) (lines_sorted lines)"
      by (simp add: anchored_directive_def list_all_lines_sorted)
    from expect_loop_idle [OF this]
    have "expect_loop f (lines_sorted lines) (splitlines_keep s, False, rmd)
        = (splitlines_keep s, False, rmd)" .
    from expect_files_file [where t = t and os = os and root = root and f = f, OF 3 this] Cons g show ?thesis by simp
  qed
qed

lemma expect_files_fires:
  "list_all (\<lambda>g. t (joinpath os root (fst g)) \<noteq> Some Dir) groups \<Longrightarrow>
   \<not> list_all (\<lambda>g. list_all (\<lambda>l. \<not> anchored_directive os root t (fst g, l)) (snd g)) groups \<Longrightarrow>
     \<exists>q. text_size (fst (final (expect_files os root groups (t, rmd)))) q < text_size t q"
proof (induction groups arbitrary: rmd)
  case Nil
  then show ?case by simp
next
  case (Cons g groups)
  obtain f lines where g: "g = (f, lines)" by (cases g)
  let ?p = "joinpath os root f"
  consider "t ?p = None" | "t ?p = Some Dir" | s where "t ?p = Some (File s)"
    by (cases "t ?p") (auto intro: node.exhaust)
  then show ?case
  proof cases
    case 1
    then have "list_all (\<lambda>l. \<not> anchored_directive os root t (f, l)) lines"
      by (simp add: anchored_directive_def list_all_iff)
    with Cons.prems g
    have "\<not> list_all (\<lambda>g. list_all (\<lambda>l. \<not> anchored_directive os root t (fst g, l)) (snd g)) groups"
      by simp
    with Cons.IH [of rmd] Cons.prems(1) 1 g show ?thesis
      by (simp add: expect_files_none)
  next
    case 2
    with Cons.prems g show ?thesis by simp
  next
    case (3 s)
    obtain ls' ch' rmd1
      where loop: "expect_loop f (lines_sorted lines) (splitlines_keep s, False, rmd) = (ls', ch', rmd1)"
      using expect_loop_result by blast
    show ?thesis
    proof (cases "list_all (\<lambda>l. \<not> directive_at (splitlines_keep s) l) (lines_sorted lines)")
      case True
      from expect_loop_idle [OF True]
      have "expect_loop f (lines_sorted lines) (splitlines_keep s, False, rmd)
          = (splitlines_keep s, False, rmd)" .
      from expect_files_file [where t = t and os = os and root = root and f = f, OF 3 this]
      have step: "expect_files os root (g # groups) (t, rmd) = expect_files os root groups (t, rmd)"
        using g by simp
      from True Cons.prems g 3
      have "\<not> list_all (\<lambda>g. list_all (\<lambda>l. \<not> anchored_directive os root t (fst g, l)) (snd g)) groups"
        by (simp add: anchored_directive_def list_all_lines_sorted)
      with Cons.IH [of rmd] Cons.prems(1) step show ?thesis by simp
    next
      case False
      from expect_loop_fires [OF False loop]
      have ch: ch' and less: "length (concat ls') < length s"
        by (simp_all add: concat_splitlines_keep)
      let ?t1 = "write_text t ?p (concat ls')"
      let ?r = "final (expect_files os root groups (?t1, rmd1))"
      from expect_files_file [where t = t and os = os and root = root and f = f, OF 3 loop] ch g
      have step: "expect_files os root (g # groups) (t, rmd) = expect_files os root groups (?t1, rmd1)"
        by simp
      have "?r = (fst ?r, snd ?r)" by simp
      from expect_files_shrinks [OF this] have "text_size (fst ?r) ?p \<le> text_size ?t1 ?p" .
      also have "\<dots> < text_size t ?p"
        using text_size_write_shrinks [of t "joinpath os root f" s, OF 3 less] by simp
      finally show ?thesis using step by auto
    qed
  qed
qed

lemma byfile_append_pairs:
  "(\<Union>g\<in>set (byfile_append byfile f l). Pair (fst g) ` set (snd g))
     = insert (f, l) (\<Union>g\<in>set byfile. Pair (fst g) ` set (snd g))"
  by (induction byfile f l rule: byfile_append.induct) auto

lemma foldl_byfile_pairs:
  "(\<Union>g\<in>set (foldl (\<lambda>byfile (f, l). byfile_append byfile f l) byfile hits). Pair (fst g) ` set (snd g))
     = (\<Union>g\<in>set byfile. Pair (fst g) ` set (snd g)) \<union> set hits"
proof (induction hits arbitrary: byfile)
  case Nil
  then show ?case by simp
next
  case (Cons h hits)
  obtain f l where h: "h = (f, l)" by (cases h)
  show ?case
    by (simp add: Cons.IH h byfile_append_pairs)
qed

lemma byfile_of_pairs:
  "(\<Union>g\<in>set (byfile_of hits). Pair (fst g) ` set (snd g)) = set hits"
  by (simp add: byfile_of_def foldl_byfile_pairs)

lemma list_all_byfile_of:
  "list_all (\<lambda>g. list_all (\<lambda>l. P (fst g, l)) (snd g)) (byfile_of hits) = list_all P hits"
proof -
  have "list_all (\<lambda>g. list_all (\<lambda>l. P (fst g, l)) (snd g)) (byfile_of hits)
      = (\<forall>h \<in> (\<Union>g\<in>set (byfile_of hits). Pair (fst g) ` set (snd g)). P h)"
    by (auto simp: list_all_iff)
  then show ?thesis by (simp add: byfile_of_pairs list_all_iff)
qed

lemma remove_ts_expect_second_run:
  assumes "remove_ts_expect os root hits t = Completed (t1, r1)"
  shows "(fst (final (remove_ts_expect os root hits t1)) = t1)
           = list_all (\<lambda>h. \<not> anchored_directive os root t1 h) (take 200 hits)"
    and "list_all (\<lambda>h. \<not> anchored_directive os root t1 h) (take 200 hits)
           \<Longrightarrow> remove_ts_expect os root hits t1 = Completed (t1, [])"
proof -
  let ?groups = "byfile_of (take 200 hits)"
  let ?none = "list_all (\<lambda>g. list_all (\<lambda>l. \<not> anchored_directive os root t1 (fst g, l)) (snd g)) ?groups"
  have none: "?none = list_all (\<lambda>h. \<not> anchored_directive os root t1 h) (take 200 hits)"
    by (rule list_all_byfile_of)
  from assms expect_files_completed [of os root ?groups t "[]" t1 r1]
  have nodir: "list_all (\<lambda>g. t1 (joinpath os root (fst g)) \<noteq> Some Dir) ?groups"
    by (simp add: remove_ts_expect_def list_all_iff)
  show idle: "remove_ts_expect os root hits t1 = Completed (t1, [])"
    if "list_all (\<lambda>h. \<not> anchored_directive os root t1 h) (take 200 hits)"
    using expect_files_idle [OF nodir] that none by (simp add: remove_ts_expect_def)
  show "(fst (final (remove_ts_expect os root hits t1)) = t1)
           = list_all (\<lambda>h. \<not> anchored_directive os root t1 h) (take 200 hits)"
  proof (cases "list_all (\<lambda>h. \<not> anchored_directive os root t1 h) (take 200 hits)")
    case True
    with idle show ?thesis by simp
  next
    case False
    with none have "\<not> ?none" by simp
    from expect_files_fires [OF nodir this, of "[]"]
    obtain q where "text_size (fst (final (remove_ts_expect os root hits t1))) q < text_size t1 q"
      by (auto simp: remove_ts_expect_def)
    then have "fst (final (remove_ts_expect os root hits t1)) \<noteq> t1" by auto
    with False show ?thesis by simp
  qed
qed

text \<open>
  Claim C2, as amended. After a run that completed, a second run with the same hits leaves
  the tree as it is exactly when no line that a hit (within the cap) designates holds the
  directive in the tree the first run left; in that case the second run removes nothing.
  This holds for remove\_ts\_expect.py (cap 200) and for step 4A of anchor\_fix.py (cap 20).
\<close>

theorem second_run_unchanged_iff:
  "(remove_ts_expect os root hits t = Completed (t1, r1) \<longrightarrow>
      (fst (final (remove_ts_expect os root hits t1)) = t1)
        = list_all (\<lambda>h. \<not> anchored_directive os root t1 h) (take 200 hits)
      \<and> (remove_ts_expect os root hits t1 = Completed (t1, []))
        = list_all (\<lambda>h. \<not> anchored_directive os root t1 h) (take 200 hits))
   \<and> (step_4a os root hits t = Completed (t1, r1) \<longrightarrow>
      (fst (final (step_4a os root hits t1)) = t1)
        = list_all (\<lambda>h. \<not> anchored_directive os root t1 h) (take 20 hits)
      \<and> (step_4a os root hits t1 = Completed (t1, []))
        = list_all (\<lambda>h. \<not> anchored_directive os root t1 h) (take 20 hits))"
proof (intro conjI impI)
  assume a: "remove_ts_expect os root hits t = Completed (t1, r1)"
  show b: "(fst (final (remove_ts_expect os root hits t1)) = t1)
        = list_all (\<lambda>h. \<not> anchored_directive os root t1 h) (take 200 hits)"
    by (rule remove_ts_expect_second_run(1) [OF a])
  show "(remove_ts_expect os root hits t1 = Completed (t1, []))
        = list_all (\<lambda>h. \<not> anchored_directive os root t1 h) (take 200 hits)"
    using remove_ts_expect_second_run(2) [OF a] b by fastforce
next
  assume a: "step_4a os root hits t = Completed (t1, r1)"
  show b: "(fst (final (step_4a os root hits t1)) = t1)
        = list_all (\<lambda>h. \<not> anchored_directive os root t1 h) (take 20 hits)"
    by (rule step_4a_second_run(1) [OF a])
  show "(step_4a os root hits t1 = Completed (t1, []))
        = list_all (\<lambda>h. \<not> anchored_directive os root t1 h) (take 20 hits)"
    using step_4a_second_run(2) [OF a] b by fastforce
qed

lemma completed_final: "completed r \<Longrightarrow> r = Completed (fst (final r), snd (final r))"
  by (cases r) simp_all

theorem second_run_unchanged_iff_witness:
  "fst (final (remove_ts_expect posix forge_app [(''src/a.ts'', 2)]
         (fst (final (remove_ts_expect posix forge_app [(''src/a.ts'', 2)]
            (one_file ''src/a.ts'' ''g(0);\<newline>// @ts-expect-error\<newline>f(1);\<newline>''))))))
   = fst (final (remove_ts_expect posix forge_app [(''src/a.ts'', 2)]
            (one_file ''src/a.ts'' ''g(0);\<newline>// @ts-expect-error\<newline>f(1);\<newline>'')))
   \<and> fst (final (step_4a posix forge_app [(''src/a.ts'', 2)]
         (fst (final (step_4a posix forge_app [(''src/a.ts'', 2)]
            (one_file ''src/a.ts'' ''g(0);\<newline>// @ts-expect-error\<newline>f(1);\<newline>''))))))
   = fst (final (step_4a posix forge_app [(''src/a.ts'', 2)]
            (one_file ''src/a.ts'' ''g(0);\<newline>// @ts-expect-error\<newline>f(1);\<newline>'')))"
proof -
  let ?t = "one_file ''src/a.ts'' ''g(0);\<newline>// @ts-expect-error\<newline>f(1);\<newline>''"
  let ?hits = "[(''src/a.ts'', 2 :: int)]"
  let ?r = "remove_ts_expect posix forge_app ?hits ?t"
  let ?a = "step_4a posix forge_app ?hits ?t"
  have "completed ?r" by code_simp
  then have r: "?r = Completed (fst (final ?r), snd (final ?r))" by (rule completed_final)
  have "completed ?a" by code_simp
  then have a: "?a = Completed (fst (final ?a), snd (final ?a))" by (rule completed_final)
  have rn: "list_all (\<lambda>h. \<not> anchored_directive posix forge_app (fst (final ?r)) h) (take 200 ?hits)"
    by code_simp
  have an: "list_all (\<lambda>h. \<not> anchored_directive posix forge_app (fst (final ?a)) h) (take 20 ?hits)"
    by code_simp
  from second_run_unchanged_iff [of posix forge_app ?hits ?t "fst (final ?r)" "snd (final ?r)"] r rn
  have "fst (final (remove_ts_expect posix forge_app ?hits (fst (final ?r)))) = fst (final ?r)"
    by blast
  moreover
  from second_run_unchanged_iff [of posix forge_app ?hits ?t "fst (final ?a)" "snd (final ?a)"] a an
  have "fst (final (step_4a posix forge_app ?hits (fst (final ?a)))) = fst (final ?a)"
    by blast
  ultimately show ?thesis by blast
qed

text \<open>
  The claim as stated fails: with the directive on lines 1 and 2 and one hit at line 1,
  the first run removes line 1, the second directive moves up to line 1, and the second
  run removes it too.
\<close>

theorem second_run_removes_more:
  "fst (final (remove_ts_expect posix forge_app [(''src/a.ts'', 1)]
         (one_file ''src/a.ts'' ''// @ts-expect-error\<newline>// @ts-expect-error\<newline>f(1);\<newline>'')))
     (forge_app @ [''src'', ''a.ts''])
   = Some (File ''// @ts-expect-error\<newline>f(1);\<newline>'')
   \<and> fst (final (remove_ts_expect posix forge_app [(''src/a.ts'', 1)]
         (fst (final (remove_ts_expect posix forge_app [(''src/a.ts'', 1)]
            (one_file ''src/a.ts'' ''// @ts-expect-error\<newline>// @ts-expect-error\<newline>f(1);\<newline>''))))))
     (forge_app @ [''src'', ''a.ts''])
   = Some (File ''f(1);\<newline>'')
   \<and> fst (final (step_4a posix forge_app [(''src/a.ts'', 1)]
         (one_file ''src/a.ts'' ''// @ts-expect-error\<newline>// @ts-expect-error\<newline>f(1);\<newline>'')))
     (forge_app @ [''src'', ''a.ts''])
   = Some (File ''// @ts-expect-error\<newline>f(1);\<newline>'')
   \<and> fst (final (step_4a posix forge_app [(''src/a.ts'', 1)]
         (fst (final (step_4a posix forge_app [(''src/a.ts'', 1)]
            (one_file ''src/a.ts'' ''// @ts-expect-error\<newline>// @ts-expect-error\<newline>f(1);\<newline>''))))))
     (forge_app @ [''src'', ''a.ts''])
   = Some (File ''f(1);\<newline>'')"
  by code_simp

subsection \<open>The cap of step 4B and the specifiers that are not relative\<close>

lemma loop_2307_cons:
  assumes "loop_2307 os root ((g, n) # hits) (t, fixed, skipped, count) = Completed s'"
  shows "(\<not> prefix ''.'' n
          \<and> loop_2307 os root hits (t, fixed, skipped @ [(g, n, ''non-relative'')], count) = Completed s')
       \<or> (prefix ''.'' n \<and> count + 1 > 15 \<and> s' = (t, fixed, skipped, count + 1))
       \<or> (prefix ''.'' n \<and> \<not> count + 1 > 15
          \<and> (\<exists>t1 fixed1 skipped1.
                loop_2307 os root hits (t1, fixed1, skipped1, count + 1) = Completed s'
                \<and> (skipped1 = skipped \<or> skipped1 = skipped @ [(g, n, ''target-missing'')])))"
  using assms
  by (auto simp: Let_def split: option.splits sum.splits if_splits)

declare loop_2307.simps(2) [simp del]

lemma non_relative_records:
  assumes "loop_2307 os root hits (t, fixed, skipped, count) = Completed (t', fixed', skipped', count')"
    and "count \<le> 15"
  shows "((f, m, ''non-relative'') \<in> set skipped') =
           ((f, m, ''non-relative'') \<in> set skipped
            \<or> (\<exists>i<length hits. hits ! i = (f, m) \<and> \<not> prefix ''.'' m
                 \<and> count + int (length (filter (\<lambda>h. prefix ''.'' (snd h)) (take i hits))) \<le> 15))"
  using assms
proof (induction hits arbitrary: t fixed skipped count)
  case Nil
  then show ?case by simp
next
  case (Cons h hits)
  obtain g n where h: "h = (g, n)" by (cases h)
  let ?rel = "\<lambda>h :: string \<times> string. prefix ''.'' (snd h)"
  let ?ex = "\<lambda>c hs. \<exists>i<length hs. hs ! i = (f, m) \<and> \<not> prefix ''.'' m
                 \<and> c + int (length (filter ?rel (take i hs))) \<le> 15"
  from Cons.prems(1) h loop_2307_cons [of os root g n hits t fixed skipped count "(t', fixed', skipped', count')"]
  consider
    (nonrel) "\<not> prefix ''.'' n"
      "loop_2307 os root hits (t, fixed, skipped @ [(g, n, ''non-relative'')], count)
         = Completed (t', fixed', skipped', count')"
    | (cap) "prefix ''.'' n" "count + 1 > 15" "skipped' = skipped"
    | (rel) t1 fixed1 skipped1 where "prefix ''.'' n" "\<not> count + 1 > 15"
      "loop_2307 os root hits (t1, fixed1, skipped1, count + 1) = Completed (t', fixed', skipped', count')"
      "skipped1 = skipped \<or> skipped1 = skipped @ [(g, n, ''target-missing'')]"
    by auto
  then show ?case
  proof cases
    case nonrel
    from Cons.IH [OF nonrel(2) Cons.prems(2)]
    have ih: "((f, m, ''non-relative'') \<in> set skipped') =
        ((f, m, ''non-relative'') \<in> set (skipped @ [(g, n, ''non-relative'')]) \<or> ?ex count hits)" .
    have shift: "?ex count (h # hits) = ((g, n) = (f, m) \<or> ?ex count hits)"
    proof
      assume "?ex count (h # hits)"
      then obtain i where i: "i < length (h # hits)" "(h # hits) ! i = (f, m)" "\<not> prefix ''.'' m"
        "count + int (length (filter ?rel (take i (h # hits)))) \<le> 15" by blast
      show "(g, n) = (f, m) \<or> ?ex count hits"
      proof (cases i)
        case 0
        with i h show ?thesis by simp
      next
        case (Suc j)
        with i h nonrel(1) have "j < length hits" "hits ! j = (f, m)"
          "count + int (length (filter ?rel (take j hits))) \<le> 15" by simp_all
        with i(3) show ?thesis by blast
      qed
    next
      assume "(g, n) = (f, m) \<or> ?ex count hits"
      then show "?ex count (h # hits)"
      proof
        assume "(g, n) = (f, m)"
        with h nonrel(1) Cons.prems(2) show ?thesis
          by (intro exI [of _ 0]) simp
      next
        assume "?ex count hits"
        then obtain j where j: "j < length hits" "hits ! j = (f, m)" "\<not> prefix ''.'' m"
          "count + int (length (filter ?rel (take j hits))) \<le> 15" by blast
        with h nonrel(1) show ?thesis
          by (intro exI [of _ "Suc j"]) simp
      qed
    qed
    show ?thesis unfolding ih shift by auto
  next
    case cap
    have "\<not> ?ex count (h # hits)"
    proof
      assume "?ex count (h # hits)"
      then obtain i where i: "i < length (h # hits)" "(h # hits) ! i = (f, m)" "\<not> prefix ''.'' m"
        "count + int (length (filter ?rel (take i (h # hits)))) \<le> 15" by blast
      show False
      proof (cases i)
        case 0
        with i h cap(1) show ?thesis by simp
      next
        case (Suc j)
        with i(4) h cap(1,2) show ?thesis by simp
      qed
    qed
    with cap(3) show ?thesis by blast
  next
    case rel
    from rel(2) have c: "count + 1 \<le> 15" by simp
    from Cons.IH [OF rel(3) c]
    have ih: "((f, m, ''non-relative'') \<in> set skipped') =
        ((f, m, ''non-relative'') \<in> set skipped1 \<or> ?ex (count + 1) hits)" .
    have s1: "((f, m, ''non-relative'') \<in> set skipped1) = ((f, m, ''non-relative'') \<in> set skipped)"
      using rel(4) by auto
    have shift: "?ex count (h # hits) = ?ex (count + 1) hits"
    proof
      assume "?ex count (h # hits)"
      then obtain i where i: "i < length (h # hits)" "(h # hits) ! i = (f, m)" "\<not> prefix ''.'' m"
        "count + int (length (filter ?rel (take i (h # hits)))) \<le> 15" by blast
      show "?ex (count + 1) hits"
      proof (cases i)
        case 0
        with i h rel(1) show ?thesis by simp
      next
        case (Suc j)
        with i h rel(1) have "j < length hits" "hits ! j = (f, m)"
          "count + 1 + int (length (filter ?rel (take j hits))) \<le> 15" by simp_all
        with i(3) show ?thesis by blast
      qed
    next
      assume "?ex (count + 1) hits"
      then obtain j where j: "j < length hits" "hits ! j = (f, m)" "\<not> prefix ''.'' m"
        "count + 1 + int (length (filter ?rel (take j hits))) \<le> 15" by blast
      with h rel(1) show "?ex count (h # hits)"
        by (intro exI [of _ "Suc j"]) simp
    qed
    show ?thesis unfolding ih s1 shift by simp
  qed
qed

lemma skip_line_reported:
  assumes "(f, m, r) \<in> set (take 50 skipped)"
  shows "sublist (''SKIP: '' @ f @ '' '' @ m @ '' ('' @ r @ '')\<newline>'') (report_4b fixed skipped)"
proof -
  from assms obtain ys zs where split: "take 50 skipped = ys @ (f, m, r) # zs"
    by (auto simp: in_set_conv_decomp)
  define pre where "pre = concat (map (\<lambda>(f, m, n). ''FIXED import: '' @ f @ '' '' @ m @ '' -> '' @ n @ ''\<newline>'') fixed)
      @ concat (map (\<lambda>(f, m, r). ''SKIP: '' @ f @ '' '' @ m @ '' ('' @ r @ '')\<newline>'') ys)"
  define post where "post = concat (map (\<lambda>(f, m, r). ''SKIP: '' @ f @ '' '' @ m @ '' ('' @ r @ '')\<newline>'') zs)"
  have "report_4b fixed skipped
      = pre @ (''SKIP: '' @ f @ '' '' @ m @ '' ('' @ r @ '')\<newline>'') @ post"
    unfolding report_4b_def split pre_def post_def by simp
  then show ?thesis
    by (simp only: sublist_appendI)
qed


subsection \<open>The rewritten specifier\<close>

lemma rewritten_specifier_steps:
  "rewritten_specifier rel =
     (let s = strip_suffix ''/index'' (strip_suffix ''.tsx'' (strip_suffix ''.ts'' (slashed rel)))
      in if prefix ''.'' s then s else ''./'' @ s)"
  by (simp add: rewritten_specifier_def slashed_def Let_def)

lemma strip_suffix_append: "strip_suffix e (u @ e) = u"
  unfolding strip_suffix_def by (simp add: suffix_def)

lemma strip_ts_not_tsx:
  assumes "suffix ''.ts'' s" "\<not> suffix ''.tsx.ts'' s"
  shows "\<not> suffix ''.tsx'' (strip_suffix ''.ts'' s)"
proof
  assume a: "suffix ''.tsx'' (strip_suffix ''.ts'' s)"
  from assms(1) obtain u where u: "s = u @ ''.ts''" by (auto simp: suffix_def)
  then have "strip_suffix ''.ts'' s = u" by (simp only: strip_suffix_append)
  with a obtain v where "u = v @ ''.tsx''" by (auto simp: suffix_def)
  with u have "s = v @ ''.tsx.ts''" by simp
  then have "suffix ''.tsx.ts'' s" by (simp only: suffix_def) blast
  with assms(2) show False by simp
qed

lemma rewritten_is_claimed:
  assumes "\<not> suffix ''.tsx.ts'' (slashed rel)"
  shows "rewritten_specifier rel = claimed_specifier rel"
proof (cases "suffix ''.ts'' (slashed rel)")
  case True
  from strip_ts_not_tsx [OF True assms]
  have "strip_suffix ''.tsx'' (strip_suffix ''.ts'' (slashed rel)) = strip_suffix ''.ts'' (slashed rel)"
    by (simp add: strip_suffix_def)
  with True show ?thesis
    by (simp add: rewritten_specifier_steps claimed_specifier_def Let_def)
next
  case False
  then have "strip_suffix ''.ts'' (slashed rel) = slashed rel"
    by (simp add: strip_suffix_def)
  with False show ?thesis
    by (simp add: rewritten_specifier_steps claimed_specifier_def Let_def strip_suffix_def)
qed

lemma loop_2307_step:
  assumes "final (loop_2307 os root ((g, n) # hits) (t, fixed, skipped, count)) = s'"
  shows "s' = (t, fixed, skipped, count + 1)
       \<or> (\<exists>skipped1 count1. final (loop_2307 os root hits (t, fixed, skipped1, count1)) = s')
       \<or> (\<exists>ex rel ptext.
             resolve os t root g n = Some ex
             \<and> relative_to os ex (parent os (joinpath os root g)) = Some rel
             \<and> t (joinpath os root g) = Some (File ptext)
             \<and> final (loop_2307 os root hits
                   (write_text t (joinpath os root g)
                      (rewrite_import n (rewritten_specifier rel) ptext),
                    fixed @ [(g, n, rewritten_specifier rel)], skipped, count + 1)) = s')"
proof (cases "prefix ''.'' n")
  case False
  with assms show ?thesis by (auto simp: loop_2307.simps(2))
next
  case rel: True
  show ?thesis
  proof (cases "count + 1 > 15")
    case True
    with rel assms show ?thesis by (simp add: loop_2307.simps(2))
  next
    case cap: False
    show ?thesis
    proof (cases "resolve os t root g n")
      case None
      with rel cap assms show ?thesis by (auto simp: loop_2307.simps(2))
    next
      case (Some ex)
      show ?thesis
      proof (cases "relative_to os ex (parent os (joinpath os root g))")
        case None
        with rel cap Some assms show ?thesis by (simp add: loop_2307.simps(2))
      next
        case r: (Some rl)
        show ?thesis
        proof (cases "t (joinpath os root g)")
          case None
          with rel cap Some r assms show ?thesis
            by (simp add: loop_2307.simps(2) read_text_def)
        next
          case node: (Some nd)
          show ?thesis
          proof (cases nd)
            case Dir
            with node rel cap Some r assms show ?thesis
              by (simp add: loop_2307.simps(2) read_text_def)
          next
            case (File ptext)
            show ?thesis
            proof (cases "rewrite_import n (rewritten_specifier rl) ptext = ptext")
              case True
              with File node rel cap Some r assms
              have "final (loop_2307 os root hits (t, fixed, skipped, count + 1)) = s'"
                by (simp add: loop_2307.simps(2) read_text_def Let_def)
              then show ?thesis by blast
            next
              case False
              with File node rel cap Some r assms
              have "final (loop_2307 os root hits
                   (write_text t (joinpath os root g)
                      (rewrite_import n (rewritten_specifier rl) ptext),
                    fixed @ [(g, n, rewritten_specifier rl)], skipped, count + 1)) = s'"
                by (simp add: loop_2307.simps(2) read_text_def Let_def)
              with Some r File node show ?thesis by blast
            qed
          qed
        qed
      qed
    qed
  qed
qed

lemma exists_write_text: "t p = Some (File s) \<Longrightarrow> exists (write_text t p s') q = exists t q"
  by (simp add: exists_def write_text_def)

lemma probe_cong: "(\<And>q. exists t1 q = exists t q) \<Longrightarrow> probe t1 opts = probe t opts"
  by (induction opts) simp_all

lemma resolve_cong:
  "(\<And>q. exists t1 q = exists t q) \<Longrightarrow> resolve os t1 root f m = resolve os t root f m"
  unfolding resolve_def Let_def by (rule probe_cong)

lemma fixed_entries:
  assumes "final (loop_2307 os root hits (t, fixed, skipped, count)) = (t', fixed', skipped', count')"
  shows "(\<forall>q. exists t' q = exists t q)
       \<and> (\<forall>f m new_mod. (f, m, new_mod) \<in> set fixed' \<longrightarrow>
            (f, m, new_mod) \<in> set fixed
            \<or> (\<exists>ex rel. resolve os t root f m = Some ex
                  \<and> relative_to os ex (parent os (joinpath os root f)) = Some rel
                  \<and> new_mod = rewritten_specifier rel))"
  using assms
proof (induction hits arbitrary: t fixed skipped count)
  case Nil
  then show ?case by simp
next
  case (Cons h hits)
  obtain g n where h: "h = (g, n)" by (cases h)
  from Cons.prems h
  have step: "final (loop_2307 os root ((g, n) # hits) (t, fixed, skipped, count))
      = (t', fixed', skipped', count')"
    by simp
  from loop_2307_step [OF step]
  consider (stop) "(t', fixed', skipped', count') = (t, fixed, skipped, count + 1)"
    | (same) skipped1 count1 where
        "final (loop_2307 os root hits (t, fixed, skipped1, count1)) = (t', fixed', skipped', count')"
    | (rewrite) ex rel ptext where "resolve os t root g n = Some ex"
        "relative_to os ex (parent os (joinpath os root g)) = Some rel"
        "t (joinpath os root g) = Some (File ptext)"
        "final (loop_2307 os root hits
           (write_text t (joinpath os root g) (rewrite_import n (rewritten_specifier rel) ptext),
            fixed @ [(g, n, rewritten_specifier rel)], skipped, count + 1))
          = (t', fixed', skipped', count')"
    by blast
  then show ?case
  proof cases
    case stop
    then show ?thesis by simp
  next
    case same
    from Cons.IH [OF same] show ?thesis .
  next
    case rewrite
    let ?t1 = "write_text t (joinpath os root g) (rewrite_import n (rewritten_specifier rel) ptext)"
    have ex1: "exists ?t1 q = exists t q" for q
      by (rule exists_write_text [of t "joinpath os root g" ptext, OF rewrite(3)])
    note ih = Cons.IH [OF rewrite(4)]
    have a: "\<forall>q. exists t' q = exists ?t1 q"
      using ih by (rule conjunct1)
    have b: "\<forall>f m new_mod. (f, m, new_mod) \<in> set fixed' \<longrightarrow>
            (f, m, new_mod) \<in> set (fixed @ [(g, n, rewritten_specifier rel)])
            \<or> (\<exists>ex rel. resolve os ?t1 root f m = Some ex
                  \<and> relative_to os ex (parent os (joinpath os root f)) = Some rel
                  \<and> new_mod = rewritten_specifier rel)"
      using ih by (rule conjunct2)
    have res: "resolve os ?t1 root f m = resolve os t root f m" for f m
      by (rule resolve_cong) (rule ex1)
    from a ex1 have "\<forall>q. exists t' q = exists t q" by simp
    moreover
    have "\<forall>f m new_mod. (f, m, new_mod) \<in> set fixed' \<longrightarrow>
            (f, m, new_mod) \<in> set fixed
            \<or> (\<exists>ex rel. resolve os t root f m = Some ex
                  \<and> relative_to os ex (parent os (joinpath os root f)) = Some rel
                  \<and> new_mod = rewritten_specifier rel)"
    proof (intro allI impI)
      fix f m new_mod
      assume "(f, m, new_mod) \<in> set fixed'"
      with b have "(f, m, new_mod) \<in> set (fixed @ [(g, n, rewritten_specifier rel)])
            \<or> (\<exists>ex rel. resolve os ?t1 root f m = Some ex
                  \<and> relative_to os ex (parent os (joinpath os root f)) = Some rel
                  \<and> new_mod = rewritten_specifier rel)"
        by blast
      then consider (old) "(f, m, new_mod) \<in> set fixed"
        | (new) "f = g" "m = n" "new_mod = rewritten_specifier rel"
        | (later) ex1 rel1 where "resolve os t root f m = Some ex1"
            "relative_to os ex1 (parent os (joinpath os root f)) = Some rel1"
            "new_mod = rewritten_specifier rel1"
        unfolding res by auto
      then show "(f, m, new_mod) \<in> set fixed
            \<or> (\<exists>ex rel. resolve os t root f m = Some ex
                  \<and> relative_to os ex (parent os (joinpath os root f)) = Some rel
                  \<and> new_mod = rewritten_specifier rel)"
      proof cases
        case old
        then show ?thesis by blast
      next
        case new
        with rewrite(1,2) show ?thesis by blast
      next
        case later
        then show ?thesis by blast
      qed
    qed
    ultimately show ?thesis by blast
  qed
qed

text \<open>
  Every rewrite that step 4B records was made for a candidate that the resolver found in
  the tree the step started with, and its new specifier is the path of that candidate
  relative to the directory of the importing file with a final \<open>.ts\<close> stripped, then a
  final \<open>.tsx\<close> stripped, then a final \<open>/index\<close> removed, and \<open>./\<close> put in front
  unless the result starts with a dot. Unless the relative path ends in \<open>.tsx.ts\<close>, this
  is the specifier as the specification words it.
\<close>

lemma rewritten_specifier_of_candidate:
  assumes "final (step_4b os root hits t) = (t', fixed, skipped, count)"
    and "(f, m, new_mod) \<in> set fixed"
  shows "\<exists>ex rel. resolve os t root f m = Some ex
           \<and> relative_to os ex (parent os (joinpath os root f)) = Some rel
           \<and> new_mod =
               (let s = strip_suffix ''/index''
                          (strip_suffix ''.tsx'' (strip_suffix ''.ts'' (slashed rel)))
                in if prefix ''.'' s then s else ''./'' @ s)
           \<and> (\<not> suffix ''.tsx.ts'' (slashed rel) \<longrightarrow> new_mod = claimed_specifier rel)"
proof -
  from assms(1) have "final (loop_2307 os root hits (t, [], [], 0)) = (t', fixed, skipped, count)"
    by (simp add: step_4b_def)
  from fixed_entries [OF this] assms(2)
  obtain ex rel where "resolve os t root f m = Some ex"
    "relative_to os ex (parent os (joinpath os root f)) = Some rel"
    "new_mod = rewritten_specifier rel"
    by fastforce
  note facts = this
  have "new_mod = (let s = strip_suffix ''/index''
                          (strip_suffix ''.tsx'' (strip_suffix ''.ts'' (slashed rel)))
                in if prefix ''.'' s then s else ''./'' @ s)"
    unfolding facts(3) by (rule rewritten_specifier_steps)
  moreover have "\<not> suffix ''.tsx.ts'' (slashed rel) \<longrightarrow> new_mod = claimed_specifier rel"
    unfolding facts(3) using rewritten_is_claimed [of rel] by blast
  ultimately show ?thesis
    using facts(1,2) by blast
qed

lemma rewritten_specifier_of_candidate_example:
  "fst (snd (final (step_4b posix forge_app [(''src/b.ts'', ''./lib.js'')] import_tree)))
     = [(''src/b.ts'', ''./lib.js'', ''./lib'')]
   \<and> claimed_specifier ''lib.ts'' = ''./lib''"
proof -
  let ?r = "final (step_4b posix forge_app [(''src/b.ts'', ''./lib.js'')] import_tree)"
  have fixed: "fst (snd ?r) = [(''src/b.ts'', ''./lib.js'', ''./lib'')]" by code_simp
  have r: "?r = (fst ?r, fst (snd ?r), fst (snd (snd ?r)), snd (snd (snd ?r)))" by simp
  have mem: "(''src/b.ts'', ''./lib.js'', ''./lib'') \<in> set (fst (snd ?r))"
    unfolding fixed by simp
  from rewritten_specifier_of_candidate [OF r mem]
  obtain ex rel where ex: "resolve posix import_tree forge_app ''src/b.ts'' ''./lib.js'' = Some ex"
    and rel: "relative_to posix ex (parent posix (joinpath posix forge_app ''src/b.ts'')) = Some rel"
    and claimed: "\<not> suffix ''.tsx.ts'' (slashed rel) \<longrightarrow> ''./lib'' = claimed_specifier rel"
    by blast
  have "resolve posix import_tree forge_app ''src/b.ts'' ''./lib.js''
      = Some (forge_app @ [''src'', ''lib.ts''])"
    by code_simp
  with ex have ex_eq: "ex = forge_app @ [''src'', ''lib.ts'']" by simp
  have "relative_to posix (forge_app @ [''src'', ''lib.ts''])
      (parent posix (joinpath posix forge_app ''src/b.ts'')) = Some ''lib.ts''"
    by code_simp
  with rel ex_eq have rel_eq: "rel = ''lib.ts''" by simp
  have "\<not> suffix ''.tsx.ts'' (slashed ''lib.ts'')" by code_simp
  with claimed rel_eq have "claimed_specifier ''lib.ts'' = ''./lib''" by simp
  with fixed show ?thesis by simp
qed

text \<open>
  Claim C6. The importing file names \<open>./foo.tsx.js\<close> and the candidate found is
  \<open>foo.tsx.ts\<close>. The loop over the two extensions strips \<open>.ts\<close> and then \<open>.tsx\<close> as well,
  so the specifier written to the file and to the log is \<open>./foo\<close>, where one extension
  stripped gives \<open>./foo.tsx\<close>; the resolver finds nothing for \<open>./foo\<close>. In the other
  order only one extension goes: \<open>foo.ts.tsx\<close> becomes \<open>./foo.ts\<close>.
\<close>

theorem double_extension_stripped_twice:
  "fst (snd (final (step_4b posix forge_app [(''src/a.ts'', ''./foo.tsx.js'')] import_tree)))
     = [(''src/a.ts'', ''./foo.tsx.js'', ''./foo'')]
   \<and> fst (final (step_4b posix forge_app [(''src/a.ts'', ''./foo.tsx.js'')] import_tree))
       (forge_app @ [''src'', ''a.ts''])
     = Some (File (''import x from '' @ squoted ''./foo'' @ '';\<newline>''))
   \<and> resolve posix import_tree forge_app ''src/a.ts'' ''./foo.tsx.js''
     = Some (forge_app @ [''src'', ''foo.tsx.ts''])
   \<and> relative_to posix (forge_app @ [''src'', ''foo.tsx.ts'']) (forge_app @ [''src''])
     = Some ''foo.tsx.ts''
   \<and> rewritten_specifier ''foo.tsx.ts'' = ''./foo''
   \<and> claimed_specifier ''foo.tsx.ts'' = ''./foo.tsx''
   \<and> resolve posix import_tree forge_app ''src/a.ts'' ''./foo'' = None
   \<and> rewritten_specifier ''foo.ts.tsx'' = ''./foo.ts''"
  by code_simp

subsection \<open>Inserting a missing import\<close>

lemma last_import_scan:
  fixes xs :: "string list"
  defines "g \<equiv> \<lambda>xs. foldl (\<lambda>last_imp (i, l). if prefix ''import '' l then int i else last_imp) (- 1)
                      (enumerate 0 xs)"
  shows "(g xs = - 1 \<and> (\<forall>i<length xs. \<not> prefix ''import '' (xs ! i)))
       \<or> (0 \<le> g xs \<and> nat (g xs) < length xs \<and> prefix ''import '' (xs ! nat (g xs))
          \<and> (\<forall>j. nat (g xs) < j \<and> j < length xs \<longrightarrow> \<not> prefix ''import '' (xs ! j)))"
proof (induction xs rule: rev_induct)
  case Nil
  then show ?case by (simp add: g_def)
next
  case (snoc x xs)
  have step: "g (xs @ [x]) = (if prefix ''import '' x then int (length xs) else g xs)"
    by (simp add: g_def enumerate_append_eq)
  show ?case
  proof (cases "prefix ''import '' x")
    case True
    with step show ?thesis by (auto simp: nth_append)
  next
    case False
    with step have same: "g (xs @ [x]) = g xs" by simp
    from snoc.IH show ?thesis
    proof
      assume a: "g xs = - 1 \<and> (\<forall>i<length xs. \<not> prefix ''import '' (xs ! i))"
      have "\<forall>i<length (xs @ [x]). \<not> prefix ''import '' ((xs @ [x]) ! i)"
      proof (intro allI impI)
        fix i assume "i < length (xs @ [x])"
        then consider "i < length xs" | "i = length xs" by fastforce
        then show "\<not> prefix ''import '' ((xs @ [x]) ! i)"
          using a False by cases (simp_all add: nth_append)
      qed
      with a same show ?thesis by simp
    next
      assume b: "0 \<le> g xs \<and> nat (g xs) < length xs \<and> prefix ''import '' (xs ! nat (g xs))
          \<and> (\<forall>j. nat (g xs) < j \<and> j < length xs \<longrightarrow> \<not> prefix ''import '' (xs ! j))"
      have "\<forall>j. nat (g xs) < j \<and> j < length (xs @ [x]) \<longrightarrow> \<not> prefix ''import '' ((xs @ [x]) ! j)"
      proof (intro allI impI)
        fix j assume j: "nat (g xs) < j \<and> j < length (xs @ [x])"
        then consider "j < length xs" | "j = length xs" by fastforce
        then show "\<not> prefix ''import '' ((xs @ [x]) ! j)"
          using b j False by cases (simp_all add: nth_append)
      qed
      moreover from b have "prefix ''import '' ((xs @ [x]) ! nat (g xs))"
        by (simp add: nth_append)
      ultimately show ?thesis using b same by simp
    qed
  qed
qed

lemma last_import_found:
  assumes "k < length lines" "k < 80" "prefix ''import '' (lines ! k)"
    and "\<forall>j. k < j \<and> j < 80 \<and> j < length lines \<longrightarrow> \<not> prefix ''import '' (lines ! j)"
  shows "last_import lines = int k"
proof -
  let ?xs = "take 80 lines"
  have len: "k < length ?xs" using assms(1,2) by simp
  have at: "prefix ''import '' (?xs ! k)" using assms(2,3) by simp
  from last_import_scan [of ?xs]
  have "0 \<le> last_import lines \<and> nat (last_import lines) < length ?xs
      \<and> prefix ''import '' (?xs ! nat (last_import lines))
      \<and> (\<forall>j. nat (last_import lines) < j \<and> j < length ?xs \<longrightarrow> \<not> prefix ''import '' (?xs ! j))"
    using len at unfolding last_import_def by blast
  then have p: "0 \<le> last_import lines" and l: "nat (last_import lines) < length ?xs"
    and a: "prefix ''import '' (?xs ! nat (last_import lines))"
    and n: "\<forall>j. nat (last_import lines) < j \<and> j < length ?xs \<longrightarrow> \<not> prefix ''import '' (?xs ! j)"
    by blast+
  have "\<not> nat (last_import lines) < k"
    using n len at by blast
  moreover have "\<not> k < nat (last_import lines)"
  proof
    assume lt: "k < nat (last_import lines)"
    with l have "nat (last_import lines) < 80" "nat (last_import lines) < length lines" by simp_all
    with assms(4) lt have "\<not> prefix ''import '' (lines ! nat (last_import lines))" by blast
    with a l show False by simp
  qed
  ultimately have "nat (last_import lines) = k" by simp
  with p show ?thesis by simp
qed

lemma last_import_none:
  assumes "\<forall>j. j < 80 \<and> j < length lines \<longrightarrow> \<not> prefix ''import '' (lines ! j)"
  shows "last_import lines = - 1"
proof -
  let ?xs = "take 80 lines"
  have none: "\<forall>i<length ?xs. \<not> prefix ''import '' (?xs ! i)"
    using assms by simp
  from last_import_scan [of ?xs] none show ?thesis
    unfolding last_import_def by blast
qed

lemma concat_insert_at:
  "concat (insert_at i x xs) = concat (take i xs) @ x @ concat (drop i xs)"
  by (simp add: insert_at_def)

lemma ensure_import_placement:
  "(sublist imp_line txt \<longrightarrow> ensure_import txt imp_line = txt)
   \<and> (\<not> sublist imp_line txt \<and> k < length (splitlines_keep txt) \<and> k < 80
        \<and> prefix ''import '' (splitlines_keep txt ! k)
        \<and> (\<forall>j. k < j \<and> j < 80 \<and> j < length (splitlines_keep txt)
              \<longrightarrow> \<not> prefix ''import '' (splitlines_keep txt ! j))
      \<longrightarrow> ensure_import txt imp_line
            = concat (take (Suc k) (splitlines_keep txt)) @ imp_line @ ''\<newline>''
              @ concat (drop (Suc k) (splitlines_keep txt)))
   \<and> (\<not> sublist imp_line txt
        \<and> (\<forall>j. j < 80 \<and> j < length (splitlines_keep txt)
              \<longrightarrow> \<not> prefix ''import '' (splitlines_keep txt ! j))
      \<longrightarrow> ensure_import txt imp_line = imp_line @ ''\<newline>'' @ txt)"
proof (intro conjI impI)
  assume "sublist imp_line txt"
  then show "ensure_import txt imp_line = txt" by (simp add: ensure_import_def)
next
  assume a: "\<not> sublist imp_line txt \<and> k < length (splitlines_keep txt) \<and> k < 80
        \<and> prefix ''import '' (splitlines_keep txt ! k)
        \<and> (\<forall>j. k < j \<and> j < 80 \<and> j < length (splitlines_keep txt)
              \<longrightarrow> \<not> prefix ''import '' (splitlines_keep txt ! j))"
  then have "last_import (splitlines_keep txt) = int k"
    by (intro last_import_found) blast+
  with a show "ensure_import txt imp_line
            = concat (take (Suc k) (splitlines_keep txt)) @ imp_line @ ''\<newline>''
              @ concat (drop (Suc k) (splitlines_keep txt))"
    by (simp add: ensure_import_def Let_def concat_insert_at nat_add_distrib)
next
  assume a: "\<not> sublist imp_line txt
        \<and> (\<forall>j. j < 80 \<and> j < length (splitlines_keep txt)
              \<longrightarrow> \<not> prefix ''import '' (splitlines_keep txt ! j))"
  then have "last_import (splitlines_keep txt) = - 1"
    by (intro last_import_none) blast
  with a show "ensure_import txt imp_line = imp_line @ ''\<newline>'' @ txt"
    by (simp add: ensure_import_def Let_def concat_insert_at concat_splitlines_keep)
qed

lemma react_import_has_marker: "sublist ''import React'' react_import"
  by code_simp

lemma view_import_has_marker: \<open>sublist ''from "@forge/ui"'' view_import\<close>
  by code_simp

lemma add_react_present:
  assumes "sublist react_import txt"
  shows "add_react txt = (txt, False)"
proof -
  from react_import_has_marker assms have "sublist ''import React'' txt"
    by (rule sublist_order.order.trans)
  then show ?thesis by (simp add: add_react_def)
qed

lemma add_view_present:
  assumes "sublist view_import txt"
  shows "add_view (txt, changed) = (txt, changed)"
proof -
  from view_import_has_marker assms have \<open>sublist ''from "@forge/ui"'' txt\<close>
    by (rule sublist_order.order.trans)
  then show ?thesis by (simp add: add_view_def)
qed

lemma add_react_front:
  "fst (add_react txt) = txt \<or> fst (add_react txt) = react_import @ ''\<newline>'' @ txt"
  by (simp add: add_react_def)

lemma add_view_front:
  "fst (add_view (txt, changed)) = txt \<or> fst (add_view (txt, changed)) = view_import @ ''\<newline>'' @ txt"
  by (simp add: add_view_def)

lemma fix_tsx_front:
  "fst (add_view (add_react txt))
     \<in> {txt, react_import @ ''\<newline>'' @ txt, view_import @ ''\<newline>'' @ txt,
        view_import @ ''\<newline>'' @ react_import @ ''\<newline>'' @ txt}"
proof -
  obtain u c where u: "add_react txt = (u, c)" by (cases "add_react txt")
  with add_react_front [of "txt"] have "u = txt \<or> u = react_import @ ''\<newline>'' @ txt" by simp
  moreover from add_view_front [of u c]
  have "fst (add_view (u, c)) = u \<or> fst (add_view (u, c)) = view_import @ ''\<newline>'' @ u" .
  ultimately show ?thesis unfolding u by auto
qed

text \<open>
  Claim C9, as amended. \<open>ensure_import\<close> of mech\_fix.py returns the text unchanged when
  the statement occurs in it; otherwise it puts the statement, on a line of its own,
  right after the last of the first 80 lines that starts with \<open>import \<close>, or in front
  of the text when none of them does. fix\_tsx.py puts each statement it adds in front of
  the whole text, wherever the imports of the file are, and adds none that occurs in it.
\<close>

theorem import_insertion_placement:
  "(sublist imp_line content \<longrightarrow> ensure_import content imp_line = content)
   \<and> (\<not> sublist imp_line content \<and> k < length (splitlines_keep content) \<and> k < 80
        \<and> prefix ''import '' (splitlines_keep content ! k)
        \<and> (\<forall>j. k < j \<and> j < 80 \<and> j < length (splitlines_keep content)
              \<longrightarrow> \<not> prefix ''import '' (splitlines_keep content ! j))
      \<longrightarrow> ensure_import content imp_line
            = concat (take (Suc k) (splitlines_keep content)) @ imp_line @ ''\<newline>''
              @ concat (drop (Suc k) (splitlines_keep content)))
   \<and> (\<not> sublist imp_line content
        \<and> (\<forall>j. j < 80 \<and> j < length (splitlines_keep content)
              \<longrightarrow> \<not> prefix ''import '' (splitlines_keep content ! j))
      \<longrightarrow> ensure_import content imp_line = imp_line @ ''\<newline>'' @ content)
   \<and> fst (add_view (add_react content))
        \<in> {content, react_import @ ''\<newline>'' @ content, view_import @ ''\<newline>'' @ content,
           view_import @ ''\<newline>'' @ react_import @ ''\<newline>'' @ content}
   \<and> (sublist react_import content \<longrightarrow> add_react content = (content, False))
   \<and> (sublist view_import content \<longrightarrow> add_view (content, changed) = (content, changed))"
  using ensure_import_placement [of imp_line content k] fix_tsx_front [of content]
    add_react_present [of content] add_view_present [of content changed]
  by blast

theorem import_insertion_placement_witness:
  \<open>ensure_import with_imports ''import React from "react";''
     = ''import a from "a";\<newline>import b from "b";\<newline>import React from "react";\<newline>const x = 1;\<newline>''
   \<and> ensure_import ''const x = 1;\<newline>'' ''import React from "react";''
     = ''import React from "react";\<newline>const x = 1;\<newline>''
   \<and> ensure_import with_imports ''import b from "b";'' = with_imports
   \<and> add_react ''import React from "react";\<newline>'' = (''import React from "react";\<newline>'', False)
   \<and> add_view (''import { view } from "@forge/ui";\<newline>view(1);\<newline>'', False)
     = (''import { view } from "@forge/ui";\<newline>view(1);\<newline>'', False)\<close>
proof -
  let ?react = \<open>''import React from "react";''\<close>
  have lines: \<open>splitlines_keep with_imports
      = [''import a from "a";\<newline>'', ''import b from "b";\<newline>'', ''const x = 1;\<newline>'']\<close>
    by code_simp
  have absent: "\<not> sublist ?react with_imports" by code_simp
  have last: "\<forall>j. 1 < j \<and> j < 80 \<and> j < length (splitlines_keep with_imports)
      \<longrightarrow> \<not> prefix ''import '' (splitlines_keep with_imports ! j)"
  proof (intro allI impI)
    fix j :: nat
    assume "1 < j \<and> j < 80 \<and> j < length (splitlines_keep with_imports)"
    then have "j = 2" by (simp add: lines)
    then show "\<not> prefix ''import '' (splitlines_keep with_imports ! j)"
      by (simp add: lines)
  qed
  have at: "(1::nat) < length (splitlines_keep with_imports) \<and> (1::nat) < 80
      \<and> prefix ''import '' (splitlines_keep with_imports ! 1)"
    by (simp add: lines)
  from import_insertion_placement [of ?react with_imports 1] absent at last
  have "ensure_import with_imports ?react
      = concat (take (Suc 1) (splitlines_keep with_imports)) @ ?react @ ''\<newline>''
        @ concat (drop (Suc 1) (splitlines_keep with_imports))"
    by blast
  then have one: \<open>ensure_import with_imports ?react
      = ''import a from "a";\<newline>import b from "b";\<newline>import React from "react";\<newline>const x = 1;\<newline>''\<close>
    by (simp add: lines)
  have absent2: "\<not> sublist ?react ''const x = 1;\<newline>''" by code_simp
  have lines2: "splitlines_keep ''const x = 1;\<newline>'' = [''const x = 1;\<newline>'']" by code_simp
  have none: "\<forall>j. j < 80 \<and> j < length (splitlines_keep ''const x = 1;\<newline>'')
      \<longrightarrow> \<not> prefix ''import '' (splitlines_keep ''const x = 1;\<newline>'' ! j)"
    by (simp add: lines2)
  from import_insertion_placement [of ?react "''const x = 1;\<newline>''"] absent2 none
  have two: \<open>ensure_import ''const x = 1;\<newline>'' ?react = ?react @ ''\<newline>'' @ ''const x = 1;\<newline>''\<close>
    by blast
  have present: \<open>sublist ''import b from "b";'' with_imports\<close> by code_simp
  from import_insertion_placement [of \<open>''import b from "b";''\<close> with_imports] present
  have three: \<open>ensure_import with_imports ''import b from "b";'' = with_imports\<close>
    by blast
  have \<open>sublist react_import ''import React from "react";\<newline>''\<close> by code_simp
  with import_insertion_placement [where content = \<open>''import React from "react";\<newline>''\<close>]
  have four: \<open>add_react ''import React from "react";\<newline>'' = (''import React from "react";\<newline>'', False)\<close>
    by blast
  have \<open>sublist view_import ''import { view } from "@forge/ui";\<newline>view(1);\<newline>''\<close> by code_simp
  with import_insertion_placement [where content = \<open>''import { view } from "@forge/ui";\<newline>view(1);\<newline>''\<close>
      and changed = False]
  have five: \<open>add_view (''import { view } from "@forge/ui";\<newline>view(1);\<newline>'', False)
     = (''import { view } from "@forge/ui";\<newline>view(1);\<newline>'', False)\<close>
    by blast
  from one two three four five show ?thesis by simp
qed

text \<open>
  The claim as stated fails for fix\_tsx.py: in a text with two imports it puts the React
  import in front of them, where \<open>ensure_import\<close> (and the claim) put it after the second.
\<close>

theorem fix_tsx_prepends:
  \<open>fst (add_view (add_react with_imports))
     = ''import React from "react";\<newline>import a from "a";\<newline>import b from "b";\<newline>const x = 1;\<newline>''
   \<and> snd (fix_tsx (\<lambda>s. forge_app @ parts_of s) [''fix_tsx.py'', ''src/App.tsx'']
            (one_file ''src/App.tsx'' with_imports)) (forge_app @ [''src'', ''App.tsx''])
     = Some (File ''import React from "react";\<newline>import a from "a";\<newline>import b from "b";\<newline>const x = 1;\<newline>'')
   \<and> ensure_import with_imports ''import React from "react";''
     = ''import a from "a";\<newline>import b from "b";\<newline>import React from "react";\<newline>const x = 1;\<newline>''\<close>
  by code_simp

subsection \<open>What step 4B leaves alone\<close>

lemma loop_2307_non_relative:
  "\<not> prefix ''.'' n \<Longrightarrow>
     loop_2307 os root ((g, n) # hits) (t, fixed, skipped, count)
       = loop_2307 os root hits (t, fixed, skipped @ [(g, n, ''non-relative'')], count)"
  by (simp add: loop_2307.simps(2))

lemma loop_2307_changes:
  assumes "final (loop_2307 os root hits (t, fixed, skipped, count)) = (t', fixed', skipped', count')"
  shows "\<exists>new. fixed' = fixed @ new
           \<and> (\<forall>e\<in>set new. prefix ''.'' (fst (snd e)))
           \<and> (\<forall>p. t' p \<noteq> t p \<longrightarrow> (\<exists>e\<in>set new. joinpath os root (fst e) = p))"
  using assms
proof (induction hits arbitrary: t fixed skipped count)
  case Nil
  then show ?case by simp
next
  case (Cons h hits)
  obtain g n where h: "h = (g, n)" by (cases h)
  show ?case
  proof (cases "prefix ''.'' n")
    case False
    with Cons.prems h
    have "final (loop_2307 os root hits (t, fixed, skipped @ [(g, n, ''non-relative'')], count))
        = (t', fixed', skipped', count')"
      by (simp add: loop_2307_non_relative)
    from Cons.IH [OF this] show ?thesis .
  next
    case True
    from Cons.prems h
    have step: "final (loop_2307 os root ((g, n) # hits) (t, fixed, skipped, count))
        = (t', fixed', skipped', count')"
      by simp
    from loop_2307_step [OF step]
    consider (stop) "(t', fixed', skipped', count') = (t, fixed, skipped, count + 1)"
      | (same) skipped1 count1 where
          "final (loop_2307 os root hits (t, fixed, skipped1, count1)) = (t', fixed', skipped', count')"
      | (rewrite) rel ptext where
          "final (loop_2307 os root hits
             (write_text t (joinpath os root g) (rewrite_import n (rewritten_specifier rel) ptext),
              fixed @ [(g, n, rewritten_specifier rel)], skipped, count + 1))
            = (t', fixed', skipped', count')"
      by blast
    then show ?thesis
    proof cases
      case stop
      then show ?thesis by simp
    next
      case same
      from Cons.IH [OF same] show ?thesis .
    next
      case rewrite
      let ?t1 = "write_text t (joinpath os root g) (rewrite_import n (rewritten_specifier rel) ptext)"
      let ?e = "(g, n, rewritten_specifier rel)"
      from Cons.IH [OF rewrite]
      obtain new where new: "fixed' = (fixed @ [?e]) @ new"
        and relative: "\<forall>e\<in>set new. prefix ''.'' (fst (snd e))"
        and changes: "\<forall>p. t' p \<noteq> ?t1 p \<longrightarrow> (\<exists>e\<in>set new. joinpath os root (fst e) = p)"
        by blast
      have "fixed' = fixed @ (?e # new)" using new by simp
      moreover have "\<forall>e\<in>set (?e # new). prefix ''.'' (fst (snd e))"
        using relative True by simp
      moreover have "\<forall>p. t' p \<noteq> t p \<longrightarrow> (\<exists>e\<in>set (?e # new). joinpath os root (fst e) = p)"
      proof (intro allI impI)
        fix p assume diff: "t' p \<noteq> t p"
        show "\<exists>e\<in>set (?e # new). joinpath os root (fst e) = p"
        proof (cases "p = joinpath os root g")
          case True
          then show ?thesis by simp
        next
          case False
          then have "?t1 p = t p" by (simp add: write_text_def)
          with diff have "t' p \<noteq> ?t1 p" by simp
          with changes show ?thesis by auto
        qed
      qed
      ultimately show ?thesis by blast
    qed
  qed
qed

text \<open>
  Claim C4, as amended. When step 4B completes, the skipped list holds the record of a
  hit with reason non-relative exactly when that hit has a specifier that does not start
  with a dot and at most 15 hits with a relative specifier come before it: the
  \<open>break\<close> at the sixteenth relative specifier ends the loop, and no later hit is
  looked at. A record among the first 50 of the skipped list has its line in the report.
  Such a hit is skipped indeed: every rewrite in the log has a relative specifier, and
  wherever the tree differs from the one the step started with, the log holds a rewrite
  of a relative specifier in that file.
\<close>

theorem non_relative_before_cap:
  assumes "step_4b os root hits t = Completed (t', fixed, skipped, count)"
  shows "((f, m, ''non-relative'') \<in> set skipped) =
           (\<exists>i<length hits. hits ! i = (f, m) \<and> \<not> prefix ''.'' m
              \<and> length (filter (\<lambda>h. prefix ''.'' (snd h)) (take i hits)) \<le> 15)
       \<and> ((f, m, ''non-relative'') \<in> set (take 50 skipped) \<longrightarrow>
            sublist (''SKIP: '' @ f @ '' '' @ m @ '' (non-relative)\<newline>'') (report_4b fixed skipped))
       \<and> list_all (\<lambda>e. prefix ''.'' (fst (snd e))) fixed
       \<and> (\<forall>p. t' p \<noteq> t p \<longrightarrow>
            list_ex (\<lambda>e. joinpath os root (fst e) = p \<and> prefix ''.'' (fst (snd e))) fixed)"
proof -
  from assms have run: "loop_2307 os root hits (t, [], [], 0) = Completed (t', fixed, skipped, count)"
    by (simp add: step_4b_def)
  from non_relative_records [OF run, of f m]
  have "((f, m, ''non-relative'') \<in> set skipped) =
           (\<exists>i<length hits. hits ! i = (f, m) \<and> \<not> prefix ''.'' m
              \<and> length (filter (\<lambda>h. prefix ''.'' (snd h)) (take i hits)) \<le> 15)"
    by simp
  moreover have "(f, m, ''non-relative'') \<in> set (take 50 skipped) \<longrightarrow>
      sublist (''SKIP: '' @ f @ '' '' @ m @ '' (non-relative)\<newline>'') (report_4b fixed skipped)"
    using skip_line_reported [of f m "''non-relative''" skipped fixed] by simp
  moreover
  from run have "final (loop_2307 os root hits (t, [], [], 0)) = (t', fixed, skipped, count)"
    by simp
  from loop_2307_changes [OF this]
  have relative: "\<forall>e\<in>set fixed. prefix ''.'' (fst (snd e))"
    and changes: "\<forall>p. t' p \<noteq> t p \<longrightarrow> (\<exists>e\<in>set fixed. joinpath os root (fst e) = p)"
    by simp_all
  have "list_all (\<lambda>e. prefix ''.'' (fst (snd e))) fixed"
    using relative by (simp add: list_all_iff)
  moreover have "\<forall>p. t' p \<noteq> t p \<longrightarrow>
      list_ex (\<lambda>e. joinpath os root (fst e) = p \<and> prefix ''.'' (fst (snd e))) fixed"
    using relative changes by (fastforce simp: list_ex_iff)
  ultimately show ?thesis by blast
qed

theorem non_relative_before_cap_witness:
  "(''src/a.ts'', ''react'', ''non-relative'')
     \<in> set (fst (snd (snd (final (step_4b posix forge_app
            [(''src/a.ts'', ''./gone''), (''src/a.ts'', ''react'')] (\<lambda>p. None))))))"
proof -
  let ?hits = "[(''src/a.ts'', ''./gone''), (''src/a.ts'', ''react'')]"
  let ?r = "step_4b posix forge_app ?hits (\<lambda>p. None)"
  have "completed ?r" by code_simp
  then obtain t' fixed skipped count where r: "?r = Completed (t', fixed, skipped, count)"
    by (cases ?r) auto
  have "\<exists>i<length ?hits. ?hits ! i = (''src/a.ts'', ''react'') \<and> \<not> prefix ''.'' ''react''
      \<and> length (filter (\<lambda>h. prefix ''.'' (snd h)) (take i ?hits)) \<le> 15"
    by (rule exI [of _ 1]) simp
  with non_relative_before_cap [OF r, of "''src/a.ts''" "''react''"]
  have "(''src/a.ts'', ''react'', ''non-relative'') \<in> set skipped" by blast
  with r show ?thesis by simp
qed

text \<open>
  The claim as stated fails: after sixteen hits with a relative specifier (their targets
  missing), a hit with the package specifier \<open>react\<close> is never reached, and the
  skipped list holds only the fifteen records of the missing targets.
\<close>

theorem non_relative_after_cap_unrecorded:
  "completed (step_4b posix forge_app
      (replicate 16 (''src/a.ts'', ''./gone'') @ [(''src/a.ts'', ''react'')]) (\<lambda>p. None))
   \<and> snd (final (step_4b posix forge_app
      (replicate 16 (''src/a.ts'', ''./gone'') @ [(''src/a.ts'', ''react'')]) (\<lambda>p. None)))
   = ([], replicate 15 (''src/a.ts'', ''./gone'', ''target-missing''), 16)
   \<and> (''src/a.ts'', ''react'', ''non-relative'')
       \<notin> set (replicate 15 (''src/a.ts'', ''./gone'', ''target-missing''))"
  by code_simp

subsection \<open>A run without a shim file\<close>

lemma repair_typecheck_before:
  "artifacts (snd (repair os re ev root w)) ''typecheck_before.txt''
     = Some (type_check ev (src_tree w))
   \<and> artifacts (snd (repair os re ev root w)) ''03_anchors_before.txt''
     = Some (str_join ''\<newline>'' (take 200 (anchor_lines_of re (type_check ev (src_tree w)))))"
  by (auto simp: repair_def Let_def artifacts_write_out src_tree_write_out
      split: run.splits prod.splits)

lemma repair_completed:
  assumes "step_4a os root (hits_2578_of re (anchor_lines_of re (type_check ev (src_tree w))))
             (src_tree w) = Completed (t1, removed)"
    and "step_4b os root (hits_2307_of re (anchor_lines_of re (type_check ev (src_tree w)))) t1
           = Completed (t2, fixed, skipped, count)"
  shows "fst (repair os re ev root w) = Exit 0
       \<and> src_tree (snd (repair os re ev root w)) = t2
       \<and> artifacts (snd (repair os re ev root w)) ''04a_ts2578.txt'' = Some (report_4a removed)
       \<and> artifacts (snd (repair os re ev root w)) ''04b_ts2307.txt''
           = Some (report_4b fixed skipped)
       \<and> artifacts (snd (repair os re ev root w)) ''typecheck_after.txt''
           = Some (type_check ev t2)
       \<and> artifacts (snd (repair os re ev root w)) ''06_remaining.txt''
           = Some (str_join ''\<newline>'' (take 220 (anchor_lines_of re (type_check ev t2))))"
  using assms
  by (simp add: repair_def Let_def artifacts_write_out src_tree_write_out write_out_def)

lemma repair_raised:
  "(step_4a os root (hits_2578_of re (anchor_lines_of re (type_check ev (src_tree w))))
      (src_tree w) = Raised e (t1, removed)
    \<longrightarrow> fst (repair os re ev root w) = Uncaught e \<and> src_tree (snd (repair os re ev root w)) = t1)
   \<and> (step_4a os root (hits_2578_of re (anchor_lines_of re (type_check ev (src_tree w))))
        (src_tree w) = Completed (t1, removed)
      \<and> step_4b os root (hits_2307_of re (anchor_lines_of re (type_check ev (src_tree w)))) t1
          = Raised e (t2, fixed, skipped, count)
    \<longrightarrow> fst (repair os re ev root w) = Uncaught e \<and> src_tree (snd (repair os re ev root w)) = t2)"
  by (simp add: repair_def Let_def src_tree_write_out write_out_def)

text \<open>
  Claim C10. When the shim file does not exist, the guard lets the run go on with the state
  it was given and writes nothing: the audit artifact holds the list of declaration
  files and nothing else, and the exit code is neither 2 nor 3. The run goes on to the
  type check, whose output on the tree as it was is in \<open>typecheck_before.txt\<close>, and to
  the anchors and the two mutation steps: when steps 4A and 4B complete, the exit code
  is 0, the tree is the one step 4B left, the two logs are those of the steps, and the
  second type check ran on that tree; when one of them raises, the run ends there with
  the tree as it then was.
\<close>

theorem absent_shim_skips_guard:
  assumes "\<not> length argv < 2"
    and "\<not> exists (src_tree w) (joinpath os root ''src/types/forge-shims.d.ts'')"
  shows "shim_guard os re ev root (snapshot ev w) = (None, snapshot ev w)
       \<and> anchor_fix os re ev root argv w = repair os re ev root (snapshot ev w)
       \<and> fst (anchor_fix os re ev root argv w) \<noteq> Exit 2
       \<and> fst (anchor_fix os re ev root argv w) \<noteq> Exit 3
       \<and> artifacts (snd (anchor_fix os re ev root argv w)) ''01_dts_audit.txt''
            = Some (concat (map (\<lambda>l. l @ ''\<newline>'') (dts_listing ev (src_tree w))))
       \<and> artifacts (snd (anchor_fix os re ev root argv w)) ''typecheck_before.txt''
            = Some (type_check ev (src_tree w))
       \<and> artifacts (snd (anchor_fix os re ev root argv w)) ''03_anchors_before.txt''
            = Some (str_join ''\<newline>'' (take 200 (anchor_lines_of re (type_check ev (src_tree w)))))
       \<and> (step_4a os root (hits_2578_of re (anchor_lines_of re (type_check ev (src_tree w))))
             (src_tree w) = Completed (t1, removed)
           \<and> step_4b os root (hits_2307_of re (anchor_lines_of re (type_check ev (src_tree w)))) t1
               = Completed (t2, fixed, skipped, count)
          \<longrightarrow> fst (anchor_fix os re ev root argv w) = Exit 0
            \<and> src_tree (snd (anchor_fix os re ev root argv w)) = t2
            \<and> artifacts (snd (anchor_fix os re ev root argv w)) ''04a_ts2578.txt''
                = Some (report_4a removed)
            \<and> artifacts (snd (anchor_fix os re ev root argv w)) ''04b_ts2307.txt''
                = Some (report_4b fixed skipped)
            \<and> artifacts (snd (anchor_fix os re ev root argv w)) ''typecheck_after.txt''
                = Some (type_check ev t2)
            \<and> artifacts (snd (anchor_fix os re ev root argv w)) ''06_remaining.txt''
                = Some (str_join ''\<newline>'' (take 220 (anchor_lines_of re (type_check ev t2)))))
       \<and> (step_4a os root (hits_2578_of re (anchor_lines_of re (type_check ev (src_tree w))))
             (src_tree w) = Raised e (t1, removed)
          \<longrightarrow> fst (anchor_fix os re ev root argv w) = Uncaught e
            \<and> src_tree (snd (anchor_fix os re ev root argv w)) = t1)
       \<and> (step_4a os root (hits_2578_of re (anchor_lines_of re (type_check ev (src_tree w))))
             (src_tree w) = Completed (t1, removed)
           \<and> step_4b os root (hits_2307_of re (anchor_lines_of re (type_check ev (src_tree w)))) t1
               = Raised e (t2, fixed, skipped, count)
          \<longrightarrow> fst (anchor_fix os re ev root argv w) = Uncaught e
            \<and> src_tree (snd (anchor_fix os re ev root argv w)) = t2)"
proof -
  let ?w = "snapshot ev w"
  have tree: "src_tree ?w = src_tree w" by (rule src_tree_snapshot)
  have g: "shim_guard os re ev root ?w = (None, ?w)"
    using assms(2) by (simp add: shim_guard_def src_tree_snapshot)
  have a: "anchor_fix os re ev root argv w = repair os re ev root ?w"
    using assms(1) g by (simp add: anchor_fix_def)
  have e: "fst (repair os re ev root ?w) \<noteq> Exit 2 \<and> fst (repair os re ev root ?w) \<noteq> Exit 3"
    using repair_exit [of os re ev root ?w] by auto
  have audit: "artifacts (snd (repair os re ev root ?w)) ''01_dts_audit.txt''
      = Some (concat (map (\<lambda>l. l @ ''\<newline>'') (dts_listing ev (src_tree w))))"
    by (simp add: repair_audit audit_snapshot)
  note before = repair_typecheck_before [of os re ev root ?w, unfolded tree]
  note finished = repair_completed [of os root re ev ?w t1 removed t2 fixed skipped count, unfolded tree]
  note raised = repair_raised [of os root re ev ?w e t1 removed t2 fixed skipped count, unfolded tree]
  show ?thesis
    unfolding a using g e audit before finished raised by blast
qed

theorem absent_shim_skips_guard_witness:
  "fst (anchor_fix posix checker_re checker_env forge_app [''anchor_fix.py'', ''out''] stale_world)
     = Exit 0
   \<and> src_tree (snd (anchor_fix posix checker_re checker_env forge_app
         [''anchor_fix.py'', ''out''] stale_world)) (forge_app @ [''src'', ''a.ts''])
     = Some (File ''f(1);\<newline>'')
   \<and> artifacts (snd (anchor_fix posix checker_re checker_env forge_app
         [''anchor_fix.py'', ''out''] stale_world)) ''01_dts_audit.txt'' = Some []
   \<and> artifacts (snd (anchor_fix posix checker_re checker_env forge_app
         [''anchor_fix.py'', ''out''] stale_world)) ''typecheck_before.txt''
     = Some (unused_line @ ''\<newline>'')
   \<and> artifacts (snd (anchor_fix posix checker_re checker_env forge_app
         [''anchor_fix.py'', ''out''] stale_world)) ''04a_ts2578.txt''
     = Some ''REMOVED src/a.ts line 1''
   \<and> artifacts (snd (anchor_fix posix checker_re checker_env forge_app
         [''anchor_fix.py'', ''out''] stale_world)) ''typecheck_after.txt'' = Some []"
proof -
  let ?argv = "[''anchor_fix.py'', ''out'']"
  let ?t = "src_tree stale_world"
  let ?lines = "anchor_lines_of checker_re (type_check checker_env ?t)"
  let ?a = "step_4a posix forge_app (hits_2578_of checker_re ?lines) ?t"
  let ?t1 = "fst (final ?a)"
  have h1: "\<not> length ?argv < 2" by simp
  have h2: "\<not> exists ?t (joinpath posix forge_app ''src/types/forge-shims.d.ts'')"
    by code_simp
  have "completed ?a" by code_simp
  then have a: "?a = Completed (?t1, snd (final ?a))" by (rule completed_final)
  have b: "step_4b posix forge_app (hits_2307_of checker_re ?lines) ?t1 = Completed (?t1, [], [], 0)"
    by (simp add: hits_2307_of_def checker_re_def List.map_filter_def step_4b_def)
  note th = absent_shim_skips_guard [OF h1 h2, of checker_re checker_env ?t1 "snd (final ?a)" ?t1
      "[]" "[]" 0]
  from th a b
  have run: "fst (anchor_fix posix checker_re checker_env forge_app ?argv stale_world) = Exit 0"
    and tree: "src_tree (snd (anchor_fix posix checker_re checker_env forge_app ?argv stale_world)) = ?t1"
    and log: "artifacts (snd (anchor_fix posix checker_re checker_env forge_app ?argv stale_world))
        ''04a_ts2578.txt'' = Some (report_4a (snd (final ?a)))"
    and after: "artifacts (snd (anchor_fix posix checker_re checker_env forge_app ?argv stale_world))
        ''typecheck_after.txt'' = Some (type_check checker_env ?t1)"
    by blast+
  from th
  have audit: "artifacts (snd (anchor_fix posix checker_re checker_env forge_app ?argv stale_world))
        ''01_dts_audit.txt'' = Some (concat (map (\<lambda>l. l @ ''\<newline>'') (dts_listing checker_env ?t)))"
    and before: "artifacts (snd (anchor_fix posix checker_re checker_env forge_app ?argv stale_world))
        ''typecheck_before.txt'' = Some (type_check checker_env ?t)"
    by blast+
  have v1: "?t1 (forge_app @ [''src'', ''a.ts'']) = Some (File ''f(1);\<newline>'')" by code_simp
  have v2: "report_4a (snd (final ?a)) = ''REMOVED src/a.ts line 1''" by code_simp
  have v3: "type_check checker_env ?t1 = []" by code_simp
  have v4: "type_check checker_env ?t = unused_line @ ''\<newline>''" by code_simp
  have v5: "dts_listing checker_env ?t = []" by (simp add: checker_env_def)
  have c2: "src_tree (snd (anchor_fix posix checker_re checker_env forge_app ?argv stale_world))
      (forge_app @ [''src'', ''a.ts'']) = Some (File ''f(1);\<newline>'')"
    by (simp only: tree v1)
  have c3: "artifacts (snd (anchor_fix posix checker_re checker_env forge_app ?argv stale_world))
      ''01_dts_audit.txt'' = Some []"
    by (simp only: audit v5 list.map concat.simps)
  have c4: "artifacts (snd (anchor_fix posix checker_re checker_env forge_app ?argv stale_world))
      ''typecheck_before.txt'' = Some (unused_line @ ''\<newline>'')"
    by (simp only: before v4)
  have c5: "artifacts (snd (anchor_fix posix checker_re checker_env forge_app ?argv stale_world))
      ''04a_ts2578.txt'' = Some ''REMOVED src/a.ts line 1''"
    by (simp only: log v2)
  have c6: "artifacts (snd (anchor_fix posix checker_re checker_env forge_app ?argv stale_world))
      ''typecheck_after.txt'' = Some []"
    by (simp only: after v3)
  from run c2 c3 c4 c5 c6 show ?thesis
    by (intro conjI)
qed

subsection \<open>The cap of step 4A\<close>










end
